theory Spec2Isabelle
  imports Main "HOL-Library.Sublist"
begin

section \<open>Go values as reflection sees them\<close>

text \<open>
  The callbacks of \<^verbatim>\<open>callback_batch_create.go\<close> inspect and mutate the caller's
  objects through \<^verbatim>\<open>reflect\<close>. A value is modelled as a tree. \<open>VNil\<close> is the nil
  interface, whose \<^verbatim>\<open>reflect.Value\<close> is the zero Value (Kind \<^verbatim>\<open>Invalid\<close>).
  Go pointers are typed, so a nil pointer determines the zero value of its element type:
  \<open>VNilPtr z\<close> carries that zero value \<open>z\<close>, which is what
  \<^verbatim>\<open>reflect.New(fieldValue.Type().Elem())\<close> allocates. \<open>VTime\<close> is a
  \<^verbatim>\<open>time.Time\<close> (a struct without exported fields).
\<close>

datatype gvalue =
    VNil
  | VBool bool
  | VInt int
  | VStr string
  | VTime int
  | VNilPtr gvalue
  | VPtr gvalue
  | VStruct "(string \<times> gvalue) list"
  | VSlice "gvalue list"

datatype kind = KInvalid | KBool | KInt | KString | KStruct | KPtr | KSlice

datatype panic =
    PanicIndexOutOfRange
  | PanicFieldByName
  | PanicInterfaceOfZeroValue

fun Kind :: "gvalue \<Rightarrow> kind" where
  "Kind VNil = KInvalid"
| "Kind (VBool b) = KBool"
| "Kind (VInt i) = KInt"
| "Kind (VStr s) = KString"
| "Kind (VTime t) = KStruct"
| "Kind (VNilPtr z) = KPtr"
| "Kind (VPtr v) = KPtr"
| "Kind (VStruct fs) = KStruct"
| "Kind (VSlice xs) = KSlice"

fun IsNil :: "gvalue \<Rightarrow> bool" where
  "IsNil (VNilPtr z) = True"
| "IsNil v = False"

text \<open>\<^verbatim>\<open>reflect.New(v.Type().Elem())\<close> for a nil pointer \<open>v\<close>.\<close>

fun New :: "gvalue \<Rightarrow> gvalue" where
  "New (VNilPtr z) = VPtr z"
| "New v = v"

text \<open>\<^verbatim>\<open>reflect.Indirect\<close>: one dereference; a nil pointer gives the zero Value.\<close>

fun Indirect :: "gvalue \<Rightarrow> gvalue" where
  "Indirect (VPtr v) = v"
| "Indirect (VNilPtr z) = VNil"
| "Indirect v = v"

text \<open>
  \<^verbatim>\<open>Value.FieldByName\<close>: panics unless the receiver's Kind is Struct; a name the
  struct does not have gives the zero Value.
\<close>

fun FieldByName :: "gvalue \<Rightarrow> string \<Rightarrow> panic + gvalue" where
  "FieldByName (VStruct fs) name = Inr (case map_of fs name of Some c \<Rightarrow> c | None \<Rightarrow> VNil)"
| "FieldByName (VTime t) name = Inr VNil"
| "FieldByName v name = Inl PanicFieldByName"

text \<open>Writing into the storage of an existing struct field (mutation in place).\<close>

fun setFieldByName :: "(string \<times> gvalue) list \<Rightarrow> string \<Rightarrow> gvalue \<Rightarrow> (string \<times> gvalue) list" where
  "setFieldByName [] name c = []"
| "setFieldByName ((k, v) # fs) name c =
     (if k = name then (k, c) # fs else (k, v) # setFieldByName fs name c)"

fun storeField :: "gvalue \<Rightarrow> string \<Rightarrow> gvalue \<Rightarrow> gvalue" where
  "storeField (VStruct fs) name c = VStruct (setFieldByName fs name c)"
| "storeField (VPtr (VStruct fs)) name c = VPtr (VStruct (setFieldByName fs name c))"
| "storeField v name c = v"

text \<open>
  The inner loop of \<^verbatim>\<open>FiledsWithIndexForBatch\<close> over \<^verbatim>\<open>structField.Names\<close>:
  a nil pointer met on the way is allocated in place, then the named field of the
  dereferenced value is taken. The result is the value the walk started from, as
  mutated, together with the resolved field value.
\<close>

fun walkNames :: "gvalue \<Rightarrow> string list \<Rightarrow> panic + (gvalue \<times> gvalue)" where
  "walkNames fieldValue [] = Inr (fieldValue, fieldValue)"
| "walkNames fieldValue (name # names) =
     (let fv = (if Kind fieldValue = KPtr \<and> IsNil fieldValue then New fieldValue else fieldValue)
      in case FieldByName (Indirect fv) name of
           Inl p \<Rightarrow> Inl p
         | Inr child \<Rightarrow>
             (case walkNames child names of
                Inl p \<Rightarrow> Inl p
              | Inr (child', resolved) \<Rightarrow> Inr (storeField fv name child', resolved)))"

text \<open>
  A \<^verbatim>\<open>reflect.Value\<close> obtained for a field is a reference to the field's storage:
  reading (\<open>peek\<close>) and writing (\<open>poke\<close>) follow the name path from the element's struct.
\<close>

fun peek :: "gvalue \<Rightarrow> string list \<Rightarrow> gvalue" where
  "peek v [] = v"
| "peek v (name # names) =
     (case FieldByName (Indirect v) name of Inr c \<Rightarrow> peek c names | Inl p \<Rightarrow> VNil)"

fun poke :: "gvalue \<Rightarrow> string list \<Rightarrow> gvalue \<Rightarrow> gvalue" where
  "poke v [] x = x"
| "poke v (name # names) x =
     (case FieldByName (Indirect v) name of
        Inr c \<Rightarrow> storeField v name (poke c names x)
      | Inl p \<Rightarrow> v)"

text \<open>
  Modelled from the spec: \<^verbatim>\<open>isBlank\<close> is not under src/. The spec says the blank flag
  is computed "by comparing the resolved value against its type's zero value".
\<close>

fun isBlank :: "gvalue \<Rightarrow> bool" where
  "isBlank VNil = True"
| "isBlank (VBool b) = (\<not> b)"
| "isBlank (VInt i) = (i = 0)"
| "isBlank (VStr s) = (s = [])"
| "isBlank (VTime t) = (t = 0)"
| "isBlank (VNilPtr z) = True"
| "isBlank (VPtr v) = False"
| "isBlank (VStruct fs) = (\<forall>p \<in> set fs. isBlank (snd p))"
| "isBlank (VSlice xs) = (xs = [])"

section \<open>Schema metadata, field descriptors and the request context\<close>

record StructField =
  Name :: string
  Names :: "string list"
  DBName :: string
  IsPrimaryKey :: bool
  IsNormal :: bool
  IsIgnored :: bool
  HasDefaultValue :: bool
  TagSettings :: "string \<rightharpoonup> string"

text \<open>
  \<^verbatim>\<open>Field.Field\<close> is a \<^verbatim>\<open>reflect.Value\<close>: the zero Value, or a reference to the
  storage of a field of the element at some index of the target slice.
\<close>

datatype fieldRef = ZeroValue | FieldOf nat "string list"

record Field =
  StructField :: StructField
  Field :: fieldRef
  IsBlank :: bool

datatype error =
    NonSliceValue string gvalue
  | EmptySlice gvalue
  | EmptyColumns gvalue
  | ExecError string

text \<open>
  The \<^verbatim>\<open>Scope\<close>. \<open>IndirectValue\<close> is the target behind \<^verbatim>\<open>scope.Value\<close>, as
  \<^verbatim>\<open>scope.IndirectValue()\<close> returns it; \<open>StructFields\<close> is
  \<^verbatim>\<open>scope.GetModelStruct().StructFields\<close>; \<open>Error\<close> the error slot read by
  \<^verbatim>\<open>scope.HasError()\<close>; \<open>Settings\<close> what \<^verbatim>\<open>scope.Get\<close> reads. \<open>Ticks\<close> counts
  the calls of \<^verbatim>\<open>NowFunc\<close> made so far and \<open>Executed\<close> records every statement
  handed to the database, in order.
\<close>

record Scope =
  IndirectValue :: gvalue
  StructFields :: "StructField list"
  Error :: "error option"
  SQL :: string
  SQLVars :: "gvalue list"
  RowsAffected :: int
  Settings :: "string \<rightharpoonup> gvalue"
  Ticks :: nat
  Executed :: "(string \<times> gvalue list) list"

section \<open>The field extractor\<close>

text \<open>The loop of \<^verbatim>\<open>FiledsWithIndexForBatch\<close> over the schema, for a struct element.\<close>

fun structFieldsLoop :: "nat \<Rightarrow> StructField list \<Rightarrow> gvalue \<Rightarrow> panic + (Field list \<times> gvalue)" where
  "structFieldsLoop i [] elem = Inr ([], elem)"
| "structFieldsLoop i (structField # rest) elem =
     (case walkNames elem (Names structField) of
        Inl p \<Rightarrow> Inl p
      | Inr (elem', fieldValue) \<Rightarrow>
          (case structFieldsLoop i rest elem' of
             Inl p \<Rightarrow> Inl p
           | Inr (flds, elem'') \<Rightarrow>
               Inr (\<lparr>StructField = structField,
                     Field = (if fieldValue = VNil then ZeroValue else FieldOf i (Names structField)),
                     IsBlank = isBlank fieldValue\<rparr> # flds, elem'')))"

text \<open>The element behind a slice entry is written back through the entry's pointer.\<close>

fun setIndirect :: "gvalue \<Rightarrow> gvalue \<Rightarrow> gvalue" where
  "setIndirect (VPtr v) elem = VPtr elem"
| "setIndirect v elem = elem"

definition FiledsWithIndexForBatch :: "Scope \<Rightarrow> int \<Rightarrow> panic + (Field list \<times> Scope)" where
  "FiledsWithIndexForBatch scope index =
     (case IndirectValue scope of
        VSlice xs \<Rightarrow>
          if index \<ge> int (length xs) then Inr ([], scope)
          else if index < 0 then Inl PanicIndexOutOfRange
          else
            let i = nat index; elem = Indirect (xs ! i) in
            if Kind elem = KStruct then
              (case structFieldsLoop i (StructFields scope) elem of
                 Inl p \<Rightarrow> Inl p
               | Inr (flds, elem') \<Rightarrow>
                   Inr (flds, scope\<lparr>IndirectValue := VSlice (xs[i := setIndirect (xs ! i) elem'])\<rparr>))
            else
              Inr (map (\<lambda>structField. \<lparr>StructField = structField, Field = ZeroValue, IsBlank = True\<rparr>)
                     (StructFields scope), scope)
      | _ \<Rightarrow> Inr ([], scope))"

section \<open>Collaborators that are not part of this file\<close>

text \<open>
  The callbacks use services defined elsewhere in the package. They are taken as
  parameters: the clock \<^verbatim>\<open>NowFunc\<close> (the time it gives at its n-th call), the dialect's
  \<^verbatim>\<open>Quote\<close> and \<^verbatim>\<open>BindVar\<close>, \<^verbatim>\<open>scope.QuotedTableName()\<close>, the database's
  \<^verbatim>\<open>Exec\<close> (an error, or the number of rows affected), \<^verbatim>\<open>fmt.Sprint\<close> on values
  that are not strings, and \<^verbatim>\<open>scope.callMethod\<close>, which runs a hook supplied by the
  caller's object.
\<close>

record Collaborators =
  NowFunc :: "nat \<Rightarrow> int"
  Quote :: "string \<Rightarrow> string"
  QuotedTableName :: string
  BindVar :: "nat \<Rightarrow> string"
  Exec :: "string \<Rightarrow> gvalue list \<Rightarrow> error + int"
  Sprint :: "gvalue \<Rightarrow> string"
  callMethod :: "string \<Rightarrow> gvalue \<Rightarrow> Scope \<Rightarrow> Scope"

definition HasError :: "Scope \<Rightarrow> bool" where
  "HasError scope = (Error scope \<noteq> None)"

text \<open>
  Modelled from the spec: \<^verbatim>\<open>scope.Err\<close> is not under src/. The spec describes "an error
  slot (first error wins; once set, must short-circuit later stages)".
\<close>

definition Err :: "Scope \<Rightarrow> error \<Rightarrow> Scope" where
  "Err scope e = (if Error scope = None then scope\<lparr>Error := Some e\<rparr> else scope)"

text \<open>\<^verbatim>\<open>Value.Interface()\<close> panics on the zero Value.\<close>

definition Interface :: "gvalue \<Rightarrow> panic + gvalue" where
  "Interface v = (if v = VNil then Inl PanicInterfaceOfZeroValue else Inr v)"

fun sliceElems :: "gvalue \<Rightarrow> gvalue list" where
  "sliceElems (VSlice xs) = xs"
| "sliceElems v = []"

text \<open>The storage of the element at an index of the target slice, behind its pointer.\<close>

definition elementAt :: "Scope \<Rightarrow> nat \<Rightarrow> gvalue option" where
  "elementAt scope i =
     (case IndirectValue scope of
        VSlice xs \<Rightarrow> if i < length xs then Some (Indirect (xs ! i)) else None
      | _ \<Rightarrow> None)"

text \<open>\<^verbatim>\<open>field.Field.Interface()\<close>: the current content of the field's storage.\<close>

definition FieldInterface :: "Scope \<Rightarrow> Field \<Rightarrow> panic + gvalue" where
  "FieldInterface scope field =
     (case Field field of
        ZeroValue \<Rightarrow> Inl PanicInterfaceOfZeroValue
      | FieldOf i names \<Rightarrow>
          (case elementAt scope i of
             Some elem \<Rightarrow> Inr (peek elem names)
           | None \<Rightarrow> Inl PanicIndexOutOfRange))"

text \<open>
  Modelled from the spec: \<^verbatim>\<open>Field.Set\<close> is not under src/. The spec says the value is
  written "onto the element's field". A descriptor without storage (the zero Value) has
  nothing to write to; the callbacks ignore what \<^verbatim>\<open>Set\<close> returns, and never read the
  descriptor's blank flag again after a \<^verbatim>\<open>Set\<close>.
\<close>

definition FieldSet :: "Scope \<Rightarrow> Field \<Rightarrow> gvalue \<Rightarrow> Scope" where
  "FieldSet scope field v =
     (case Field field of
        ZeroValue \<Rightarrow> scope
      | FieldOf i names \<Rightarrow>
          (case elementAt scope i of
             Some elem \<Rightarrow>
               scope\<lparr>IndirectValue :=
                 VSlice ((sliceElems (IndirectValue scope))
                   [i := setIndirect (sliceElems (IndirectValue scope) ! i) (poke elem names v)])\<rparr>
           | None \<Rightarrow> scope))"

text \<open>
  Modelled from the spec: \<^verbatim>\<open>scope.AddToVars\<close> is not under src/. The spec describes
  "an ordered sequence of bound parameter values"; the placeholder is the dialect's bind
  variable for the position of the value just appended.
\<close>

definition AddToVars :: "Collaborators \<Rightarrow> Scope \<Rightarrow> gvalue \<Rightarrow> string \<times> Scope" where
  "AddToVars env scope v =
     (BindVar env (Suc (length (SQLVars scope))), scope\<lparr>SQLVars := SQLVars scope @ [v]\<rparr>)"

text \<open>Modelled from the spec: \<^verbatim>\<open>scope.Raw\<close> is not under src/; it sets the "accumulated SQL text".\<close>

definition Raw :: "Scope \<Rightarrow> string \<Rightarrow> Scope" where
  "Raw scope sql = scope\<lparr>SQL := sql\<rparr>"

text \<open>
  Modelled from the spec: \<^verbatim>\<open>addExtraSpaceIfExist\<close> is not under src/. The spec says the
  insert option is "appended verbatim after the VALUES clause", and that the trailing
  clause is there only "if the context carries an insert option setting".
\<close>

definition addExtraSpaceIfExist :: "string \<Rightarrow> string" where
  "addExtraSpaceIfExist str = str"

text \<open>\<^verbatim>\<open>fmt.Sprint\<close>: a string prints as itself.\<close>

definition fmtSprint :: "Collaborators \<Rightarrow> gvalue \<Rightarrow> string" where
  "fmtSprint env v = (case v of VStr s \<Rightarrow> s | _ \<Rightarrow> Sprint env v)"

text \<open>\<^verbatim>\<open>strings.Join\<close>.\<close>

fun Join :: "string list \<Rightarrow> string \<Rightarrow> string" where
  "Join [] sep = []"
| "Join [x] sep = x"
| "Join (x # y # ys) sep = x @ sep @ Join (y # ys) sep"

section \<open>The pre-batch stage\<close>

definition beforeBatchCreateCallback :: "Collaborators \<Rightarrow> Scope \<Rightarrow> panic + Scope" where
  "beforeBatchCreateCallback env scope =
     (if \<not> HasError scope then
        let indirectScopeValue = IndirectValue scope in
        if Kind indirectScopeValue \<noteq> KSlice then
          (case Interface indirectScopeValue of
             Inl p \<Rightarrow> Inl p
           | Inr given \<Rightarrow> Inr (Err scope (NonSliceValue ''beforeBatchCreateCallback'' given)))
        else if length (sliceElems indirectScopeValue) > 0 then
          Inr (callMethod env ''BeforeBatchCreate'' (sliceElems indirectScopeValue ! 0) scope)
        else Inr scope
      else Inr scope)"

section \<open>The timestamp stage\<close>

fun stampFields :: "gvalue \<Rightarrow> Field list \<Rightarrow> Scope \<Rightarrow> Scope" where
  "stampFields now [] scope = scope"
| "stampFields now (field # rest) scope =
     (if \<not> IsBlank field then stampFields now rest scope
      else if Name (StructField field) = ''CreatedAt'' \<or> Name (StructField field) = ''UpdatedAt''
        then stampFields now rest (FieldSet scope field now)
      else stampFields now rest scope)"

function stampElements :: "gvalue \<Rightarrow> nat \<Rightarrow> nat \<Rightarrow> Scope \<Rightarrow> panic + Scope" where
  "stampElements now elementIndex len scope =
     (if elementIndex < len then
        (case FiledsWithIndexForBatch scope (int elementIndex) of
           Inl p \<Rightarrow> Inl p
         | Inr (flds, scope') \<Rightarrow>
             stampElements now (Suc elementIndex) len (stampFields now flds scope'))
      else Inr scope)"
  by pat_completeness auto
termination
  by (relation "measure (\<lambda>(now, elementIndex, len, scope). len - elementIndex)") auto

definition updateTimeStampForBatchCreateCallback :: "Collaborators \<Rightarrow> Scope \<Rightarrow> panic + Scope" where
  "updateTimeStampForBatchCreateCallback env scope =
     (if \<not> HasError scope then
        let now = VTime (NowFunc env (Ticks scope));
            scope = scope\<lparr>Ticks := Suc (Ticks scope)\<rparr>;
            indirectScopeValue = IndirectValue scope in
        if Kind indirectScopeValue \<noteq> KSlice then
          (case Interface indirectScopeValue of
             Inl p \<Rightarrow> Inl p
           | Inr given \<Rightarrow>
               Inr (Err scope (NonSliceValue ''updateTimeStampForBatchCreateCallback'' given)))
        else stampElements now 0 (length (sliceElems indirectScopeValue)) scope
      else Inr scope)"

section \<open>The batch-insert stage\<close>

text \<open>The column loop: the quoted column names and the map \<^verbatim>\<open>existColumnNames\<close>.\<close>

fun columnsLoop ::
  "Collaborators \<Rightarrow> Field list \<Rightarrow> string list \<times> (string \<Rightarrow> bool) \<Rightarrow> string list \<times> (string \<Rightarrow> bool)" where
  "columnsLoop env [] acc = acc"
| "columnsLoop env (field # rest) (columns, existColumnNames) =
     (if \<not> IsNormal (StructField field) \<or> IsIgnored (StructField field)
      then columnsLoop env rest (columns, existColumnNames)
      else columnsLoop env rest
             (columns @ [Quote env (DBName (StructField field))],
              existColumnNames(Name (StructField field) := True)))"

text \<open>The value bound for one field of one row (the body of the innermost \<^verbatim>\<open>if\<close>).\<close>

definition tagDefault :: "StructField \<Rightarrow> string" where
  "tagDefault structField =
     (case TagSettings structField ''DEFAULT'' of Some d \<Rightarrow> d | None \<Rightarrow> [])"

definition boundValue :: "Scope \<Rightarrow> Field \<Rightarrow> panic + (gvalue \<times> Scope)" where
  "boundValue scope field =
     (if \<not> IsBlank field then
        (case FieldInterface scope field of Inl p \<Rightarrow> Inl p | Inr v \<Rightarrow> Inr (v, scope))
      else if \<not> IsPrimaryKey (StructField field) then
        (if HasDefaultValue (StructField field) then
           let v = VStr (tagDefault (StructField field)) in Inr (v, FieldSet scope field v)
         else
           (case FieldInterface scope field of Inl p \<Rightarrow> Inl p | Inr v \<Rightarrow> Inr (v, scope)))
      else Inr (VNil, scope))"

fun rowFieldsLoop ::
  "Collaborators \<Rightarrow> (string \<Rightarrow> bool) \<Rightarrow> Field list \<Rightarrow> string list \<Rightarrow> Scope \<Rightarrow> panic + (string list \<times> Scope)" where
  "rowFieldsLoop env existColumnNames [] valuePlaceholders scope = Inr (valuePlaceholders, scope)"
| "rowFieldsLoop env existColumnNames (field # rest) valuePlaceholders scope =
     (if existColumnNames (Name (StructField field)) then
        (case boundValue scope field of
           Inl p \<Rightarrow> Inl p
         | Inr (v, scope') \<Rightarrow>
             (case AddToVars env scope' v of
                (placeholder, scope'') \<Rightarrow>
                  rowFieldsLoop env existColumnNames rest (valuePlaceholders @ [placeholder]) scope''))
      else rowFieldsLoop env existColumnNames rest valuePlaceholders scope)"

function rowsLoop ::
  "Collaborators \<Rightarrow> (string \<Rightarrow> bool) \<Rightarrow> nat \<Rightarrow> nat \<Rightarrow> string list list \<Rightarrow> Scope
     \<Rightarrow> panic + (string list list \<times> Scope)" where
  "rowsLoop env existColumnNames elementIndex len placeholders scope =
     (if elementIndex < len then
        (case FiledsWithIndexForBatch scope (int elementIndex) of
           Inl p \<Rightarrow> Inl p
         | Inr (flds, scope') \<Rightarrow>
             (case rowFieldsLoop env existColumnNames flds [] scope' of
                Inl p \<Rightarrow> Inl p
              | Inr (valuePlaceholders, scope'') \<Rightarrow>
                  rowsLoop env existColumnNames (Suc elementIndex) len
                    (placeholders[elementIndex := valuePlaceholders]) scope''))
      else Inr (placeholders, scope))"
  by pat_completeness auto
termination
  by (relation "measure (\<lambda>(env, existColumnNames, elementIndex, len, placeholders, scope). len - elementIndex)")
    auto

text \<open>The statement text, as the two \<^verbatim>\<open>Sprintf\<close> calls and \<^verbatim>\<open>strings.Join\<close> assemble it.\<close>

definition insertSQL :: "string \<Rightarrow> string list \<Rightarrow> string list list \<Rightarrow> string \<Rightarrow> string" where
  "insertSQL quotedTableName columns placeholders extraOption =
     ''INSERT INTO '' @ quotedTableName @ '' ('' @ Join columns '','' @ '') VALUES ''
       @ Join (map (\<lambda>placeholder. ''('' @ Join placeholder '','' @ '')'') placeholders) '',''
       @ addExtraSpaceIfExist extraOption"

definition execStatement :: "Collaborators \<Rightarrow> Scope \<Rightarrow> Scope" where
  "execStatement env scope =
     (let scope' = scope\<lparr>Executed := Executed scope @ [(SQL scope, SQLVars scope)]\<rparr> in
      case Exec env (SQL scope) (SQLVars scope) of
        Inl err \<Rightarrow> Err scope' err
      | Inr rows \<Rightarrow> scope'\<lparr>RowsAffected := rows\<rparr>)"

text \<open>
  The stage itself. \<^verbatim>\<open>defer scope.trace(NowFunc())\<close> reads the clock when the
  \<^verbatim>\<open>defer\<close> statement runs; \<^verbatim>\<open>trace\<close> only logs and is left out.
\<close>

definition batchCreateCallback :: "Collaborators \<Rightarrow> Scope \<Rightarrow> panic + Scope" where
  "batchCreateCallback env scope =
     (if \<not> HasError scope then
        let scope = scope\<lparr>Ticks := Suc (Ticks scope)\<rparr>;
            indirectScopeValue = IndirectValue scope in
        if Kind indirectScopeValue \<noteq> KSlice then
          (case Interface indirectScopeValue of
             Inl p \<Rightarrow> Inl p
           | Inr given \<Rightarrow> Inr (Err scope (NonSliceValue ''batchCreateCallback'' given)))
        else if length (sliceElems indirectScopeValue) \<le> 0 then
          Inr (Err scope (EmptySlice indirectScopeValue))
        else
          (case FiledsWithIndexForBatch scope 0 of
             Inl p \<Rightarrow> Inl p
           | Inr (flds, scope1) \<Rightarrow>
               (case columnsLoop env flds ([], \<lambda>name. False) of
                  (columns, existColumnNames) \<Rightarrow>
                    if length columns \<le> 0 then
                      Inr (Err scope1 (EmptyColumns (IndirectValue scope1)))
                    else
                      (case rowsLoop env existColumnNames 0 (length (sliceElems indirectScopeValue))
                              (replicate (length (sliceElems indirectScopeValue)) []) scope1 of
                         Inl p \<Rightarrow> Inl p
                       | Inr (placeholders, scope2) \<Rightarrow>
                           let extraOption =
                                 (case Settings scope2 ''gorm:insert_option'' of
                                    Some str \<Rightarrow> fmtSprint env str
                                  | None \<Rightarrow> [])
                           in Inr (execStatement env
                                (Raw scope2
                                  (insertSQL (QuotedTableName env) columns placeholders extraOption))))))
      else Inr scope)"

section \<open>A concrete schema and batch\<close>

text \<open>
  A small schema in the shape the model metadata provider gives it: a primary key, a
  column with a configured default, and the two timestamp columns reached through an
  embedded pointer. The batch has three users; the first has a nil \<open>Base\<close>.
\<close>

definition mkStructField ::
  "string \<Rightarrow> string list \<Rightarrow> bool \<Rightarrow> bool \<Rightarrow> bool \<Rightarrow> string option \<Rightarrow> StructField" where
  "mkStructField name names primaryKey normal ignored dflt =
     \<lparr>Name = name, Names = names, DBName = name, IsPrimaryKey = primaryKey,
      IsNormal = normal, IsIgnored = ignored, HasDefaultValue = (dflt \<noteq> None),
      TagSettings = (\<lambda>key. if key = ''DEFAULT'' then dflt else None)\<rparr>"

definition userSchema :: "StructField list" where
  "userSchema =
     [mkStructField ''ID'' [''ID''] True True False None,
      mkStructField ''Role'' [''Role''] False True False (Some ''guest''),
      mkStructField ''CreatedAt'' [''Base'', ''CreatedAt''] False True False None,
      mkStructField ''UpdatedAt'' [''Base'', ''UpdatedAt''] False True False None]"

definition userBatch :: "gvalue list" where
  "userBatch =
     [VPtr (VStruct [(''ID'', VInt 0), (''Role'', VStr []),
        (''Base'', VNilPtr (VStruct [(''CreatedAt'', VTime 0), (''UpdatedAt'', VTime 0)]))]),
      VPtr (VStruct [(''ID'', VInt 7), (''Role'', VStr ''admin''),
        (''Base'', VPtr (VStruct [(''CreatedAt'', VTime 0), (''UpdatedAt'', VTime 0)]))]),
      VPtr (VStruct [(''ID'', VInt 0), (''Role'', VStr []),
        (''Base'', VPtr (VStruct [(''CreatedAt'', VTime 5), (''UpdatedAt'', VTime 0)]))])]"

definition mkScope :: "gvalue \<Rightarrow> StructField list \<Rightarrow> Scope" where
  "mkScope target structFields =
     \<lparr>IndirectValue = target, StructFields = structFields, Error = None, SQL = [],
      SQLVars = [], RowsAffected = 0, Settings = Map.empty, Ticks = 0, Executed = []\<rparr>"

definition demoEnv :: Collaborators where
  "demoEnv =
     \<lparr>NowFunc = (\<lambda>n. 100 + int n), Quote = (\<lambda>s. ''['' @ s @ '']''),
      QuotedTableName = ''[users]'', BindVar = (\<lambda>n. ''?''),
      Exec = (\<lambda>sql vars. Inr (int (length vars))), Sprint = (\<lambda>v. ''?''),
      callMethod = (\<lambda>name receiver scope. scope)\<rparr>"

text \<open>
  A struct that embeds \<open>Base\<close> and shadows its field \<open>Note\<close> with a field of its own that
  is tagged as ignored: the flattened metadata has two fields with the logical name
  \<open>Note\<close>, reached by different name paths.
\<close>

definition shadowSchema :: "StructField list" where
  "shadowSchema =
     [mkStructField ''Note'' [''Base'', ''Note''] False True False None,
      mkStructField ''Note'' [''Note''] False False True None]"

definition shadowBatch :: "gvalue list" where
  "shadowBatch =
     [VStruct [(''Note'', VStr ''outer''), (''Base'', VStruct [(''Note'', VStr ''inner'')])]]"

text \<open>A schema whose only field is ignored, and a schema whose primary key has a default.\<close>

definition secretSchema :: "StructField list" where
  "secretSchema = [mkStructField ''Secret'' [''Secret''] False False True None]"

definition secretBatch :: "gvalue list" where
  "secretBatch = [VStruct [(''Secret'', VStr ''x'')]]"

definition ticketSchema :: "StructField list" where
  "ticketSchema =
     [mkStructField ''Code'' [''Code''] True True False (Some ''T-0''),
      mkStructField ''Title'' [''Title''] False True False None]"

definition ticketBatch :: "gvalue list" where
  "ticketBatch =
     [VPtr (VStruct [(''Code'', VStr ''T-9''), (''Title'', VStr ''first'')]),
      VPtr (VStruct [(''Code'', VStr []), (''Title'', VStr ''second'')])]"

text \<open>
  A struct with a struct-valued field \<open>Tag\<close> (a relationship, which the metadata marks as
  not normal) that embeds \<open>Meta\<close>, whose string field is also called \<open>Tag\<close>.
\<close>

definition tagSchema :: "StructField list" where
  "tagSchema =
     [mkStructField ''Tag'' [''Tag''] False False False None,
      mkStructField ''Tag'' [''Meta'', ''Tag''] False True False None]"

definition tagBatch :: "gvalue list" where
  "tagBatch =
     [VStruct [(''Tag'', VStruct [(''ID'', VInt 1)]), (''Meta'', VStruct [(''Tag'', VStr ''m0'')])],
      VStruct [(''Tag'', VStruct [(''ID'', VInt 2)]), (''Meta'', VStruct [(''Tag'', VStr ''m1'')])]]"


section \<open>Notions used to state the results\<close>

text \<open>
  The value a name path leads to, seen through the nil pointers the extractor would
  allocate on the way: what \<^verbatim>\<open>FiledsWithIndexForBatch\<close> resolves for a field.
\<close>

fun lookup :: "gvalue \<Rightarrow> string list \<Rightarrow> gvalue" where
  "lookup v [] = v"
| "lookup v (name # names) =
     (case FieldByName (Indirect (New v)) name of Inr c \<Rightarrow> lookup c names | Inl p \<Rightarrow> VNil)"

text \<open>The fields that make up the Column Set: normal and not ignored.\<close>

definition persistable :: "StructField \<Rightarrow> bool" where
  "persistable structField = (IsNormal structField \<and> \<not> IsIgnored structField)"

definition columnFields :: "StructField list \<Rightarrow> StructField list" where
  "columnFields structFields = filter persistable structFields"

definition quotedColumns :: "Collaborators \<Rightarrow> StructField list \<Rightarrow> string list" where
  "quotedColumns env structFields =
     map (\<lambda>structField. Quote env (DBName structField)) (columnFields structFields)"

text \<open>
  The content of the map \<^verbatim>\<open>existColumnNames\<close> after the column loop, and the fields a
  row binds a value for: those whose logical name is in that map.
\<close>

definition inColumnSet :: "StructField list \<Rightarrow> string \<Rightarrow> bool" where
  "inColumnSet structFields name = (name \<in> set (map Name (columnFields structFields)))"

definition boundFields :: "StructField list \<Rightarrow> StructField list" where
  "boundFields structFields =
     filter (\<lambda>structField. inColumnSet structFields (Name structField)) structFields"

text \<open>
  No field outside the Column Set carries the logical name of a field inside it (as when
  logical names are distinct).
\<close>

definition columnNamesExclusive :: "StructField list \<Rightarrow> bool" where
  "columnNamesExclusive structFields =
     list_all (\<lambda>structField. inColumnSet structFields (Name structField) \<longrightarrow> persistable structField)
       structFields"

text \<open>
  A homogeneous collection: every entry is a struct (possibly behind a pointer) in which
  each name path of the schema leads to a value.
\<close>

definition isRecord :: "StructField list \<Rightarrow> gvalue \<Rightarrow> bool" where
  "isRecord structFields entry =
     (Kind (Indirect entry) = KStruct \<and>
      list_all (\<lambda>structField. lookup (Indirect entry) (Names structField) \<noteq> VNil) structFields)"

definition homogeneous :: "StructField list \<Rightarrow> gvalue list \<Rightarrow> bool" where
  "homogeneous structFields entries = list_all (isRecord structFields) entries"

text \<open>
  The name paths of a schema lead to separate storage: none is a prefix of another. The
  metadata of a Go struct has this property, since a field that is walked through is an
  embedded struct and has no descriptor of its own.
\<close>

fun pathsIndependent :: "string list list \<Rightarrow> bool" where
  "pathsIndependent [] = True"
| "pathsIndependent (p # ps) = ((\<forall>q\<in>set ps. \<not> prefix p q \<and> \<not> prefix q p) \<and> pathsIndependent ps)"

text \<open>The trailing text of the statement: the insert option, printed.\<close>

definition optionText :: "Collaborators \<Rightarrow> Scope \<Rightarrow> string" where
  "optionText env scope =
     (case Settings scope ''gorm:insert_option'' of Some str \<Rightarrow> fmtSprint env str | None \<Rightarrow> [])"

text \<open>
  The Value Resolver of the spec, as a function of the element before the call: the value
  bound for a field, and the content of the field after the call.
\<close>

definition rowValue :: "gvalue \<Rightarrow> StructField \<Rightarrow> gvalue" where
  "rowValue elem structField =
     (let v = lookup elem (Names structField) in
      if \<not> isBlank v then v
      else if \<not> IsPrimaryKey structField then
        (if HasDefaultValue structField then VStr (tagDefault structField) else v)
      else VNil)"

definition writtenBack :: "(string \<Rightarrow> bool) \<Rightarrow> gvalue \<Rightarrow> StructField \<Rightarrow> gvalue" where
  "writtenBack ex elem structField =
     (if ex (Name structField) \<and> isBlank (lookup elem (Names structField))
         \<and> \<not> IsPrimaryKey structField \<and> HasDefaultValue structField
      then VStr (tagDefault structField)
      else lookup elem (Names structField))"

text \<open>The content of a field after the timestamp stage.\<close>

definition namedTimestamp :: "StructField \<Rightarrow> bool" where
  "namedTimestamp structField = (Name structField = ''CreatedAt'' \<or> Name structField = ''UpdatedAt'')"

definition stamped :: "gvalue \<Rightarrow> gvalue \<Rightarrow> StructField \<Rightarrow> gvalue" where
  "stamped now elem structField =
     (if isBlank (lookup elem (Names structField)) \<and> namedTimestamp structField then now
      else lookup elem (Names structField))"

subsection \<open>Auxiliary notions of the proofs\<close>

definition hasField :: "gvalue \<Rightarrow> string \<Rightarrow> bool" where
  "hasField v n = (\<exists>fs. Indirect v = VStruct fs \<and> map_of fs n \<noteq> None)"

text \<open>A step that changes at most one entry of the target slice and the bound values.\<close>

definition touchesOnly :: "nat \<Rightarrow> Scope \<Rightarrow> Scope \<Rightarrow> bool" where
  "touchesOnly i s s' =
     (\<exists>ys e vars. IndirectValue s = VSlice ys \<and> i < length ys \<and>
        s' = s\<lparr>IndirectValue := VSlice (ys[i := e]), SQLVars := vars\<rparr>)"

text \<open>A step that leaves everything but the target and the bound values as it was.\<close>

definition sameContext :: "Scope \<Rightarrow> Scope \<Rightarrow> bool" where
  "sameContext s s' = (s' = s\<lparr>IndirectValue := IndirectValue s', SQLVars := SQLVars s'\<rparr>)"

text \<open>The descriptor the extractor builds for a field of a record.\<close>

definition mkField :: "nat \<Rightarrow> gvalue \<Rightarrow> StructField \<Rightarrow> Field" where
  "mkField i elem structField =
     \<lparr>StructField = structField, Field = FieldOf i (Names structField),
      IsBlank = isBlank (lookup elem (Names structField))\<rparr>"

text \<open>The writes of one pass over the descriptors of an element, in order.\<close>

fun pokeFields :: "(StructField \<Rightarrow> gvalue option) \<Rightarrow> StructField list \<Rightarrow> gvalue \<Rightarrow> gvalue" where
  "pokeFields w [] cur = cur"
| "pokeFields w (sf # rest) cur =
     pokeFields w rest (case w sf of Some x \<Rightarrow> poke cur (Names sf) x | None \<Rightarrow> cur)"

definition stampW :: "gvalue \<Rightarrow> gvalue \<Rightarrow> StructField \<Rightarrow> gvalue option" where
  "stampW now elem sf =
     (if isBlank (lookup elem (Names sf)) \<and> namedTimestamp sf then Some now else None)"

definition defaultW :: "(string \<Rightarrow> bool) \<Rightarrow> gvalue \<Rightarrow> StructField \<Rightarrow> gvalue option" where
  "defaultW ex elem sf =
     (if ex (Name sf) \<and> isBlank (lookup elem (Names sf)) \<and> \<not> IsPrimaryKey sf \<and> HasDefaultValue sf
      then Some (VStr (tagDefault sf)) else None)"

section \<open>Reflection: walking, reading and writing\<close>

lemma mat_New: "(if Kind v = KPtr \<and> IsNil v then New v else v) = New v"
  by (cases v) auto

lemma map_of_setFieldByName:
  "map_of (setFieldByName fs n c) m =
     (if m = n \<and> map_of fs n \<noteq> None then Some c else map_of fs m)"
  by (induction fs n c rule: setFieldByName.induct) auto

lemma FieldByName_storeField:
  "FieldByName (Indirect v) n = Inr c \<Longrightarrow>
   FieldByName (Indirect (storeField v n c')) m =
     (if m = n \<and> hasField v n then Inr c' else FieldByName (Indirect v) m)"
  by (cases "(v, n, c')" rule: storeField.cases) (auto simp: hasField_def map_of_setFieldByName)

lemma FieldByName_nonnil_hasField:
  "FieldByName (Indirect v) n = Inr c \<Longrightarrow> c \<noteq> VNil \<Longrightarrow> hasField v n"
  by (cases "(v, n, c)" rule: storeField.cases) (auto simp: hasField_def split: option.splits)

lemma FieldByName_not_hasField:
  "FieldByName (Indirect v) n = Inr c \<Longrightarrow> \<not> hasField v n \<Longrightarrow> c = VNil"
  using FieldByName_nonnil_hasField by blast

lemma walkNames_Cons:
  "walkNames v (n # ns) =
     (case FieldByName (Indirect (New v)) n of
        Inl p \<Rightarrow> Inl p
      | Inr child \<Rightarrow>
          (case walkNames child ns of
             Inl p \<Rightarrow> Inl p
           | Inr (child', r) \<Rightarrow> Inr (storeField (New v) n child', r)))"
  by (simp add: mat_New Let_def)

declare walkNames.simps(2) [simp del]

lemma walkNames_ConsE:
  assumes "walkNames v (n # ns) = Inr (v', r)"
  obtains c c' where "FieldByName (Indirect (New v)) n = Inr c"
    and "walkNames c ns = Inr (c', r)" and "v' = storeField (New v) n c'"
  using assms unfolding walkNames_Cons by (auto split: sum.splits prod.splits)

lemma Kind_New: "Kind (New v) = Kind v"
  by (cases v) auto

lemma walkNames_VNil: "walkNames VNil names = Inr (v', r) \<Longrightarrow> v' = VNil \<and> r = VNil"
  by (cases names) (auto simp: walkNames_Cons)

lemma Kind_storeField: "Kind (storeField v n c) = Kind v"
  by (induction v n c rule: storeField.induct) auto

lemma New_not_nil: "\<not> IsNil v \<Longrightarrow> New v = v"
  by (cases v) auto

lemma IsNil_New: "\<not> IsNil (New v)"
  by (cases v) auto

lemma IsNil_storeField: "IsNil (storeField v n c) = IsNil v"
  by (induction v n c rule: storeField.induct) auto

lemma New_storeField: "New (storeField (New v) n c) = storeField (New v) n c"
  by (simp add: New_not_nil IsNil_storeField IsNil_New)

lemma walkNames_ok:
  "lookup v names \<noteq> VNil \<Longrightarrow> \<exists>v'. walkNames v names = Inr (v', lookup v names)"
proof (induction names arbitrary: v)
  case Nil
  then show ?case by simp
next
  case (Cons n ns)
  then obtain c where c: "FieldByName (Indirect (New v)) n = Inr c" and l: "lookup c ns \<noteq> VNil"
    by (auto split: sum.splits)
  from Cons.IH[OF l] obtain c' where "walkNames c ns = Inr (c', lookup c ns)" by blast
  with c show ?case by (simp add: walkNames_Cons)
qed

lemma walkNames_Kind: "Kind v' = Kind v" if "walkNames v names = Inr (v', r)"
proof (cases names)
  case Nil
  with that show ?thesis by simp
next
  case (Cons n ns)
  with that show ?thesis by (auto elim!: walkNames_ConsE simp: Kind_storeField Kind_New)
qed

lemma walkNames_lookup_other:
  "walkNames v p = Inr (v', r) \<Longrightarrow> \<not> strict_prefix q p \<Longrightarrow> lookup v' q = lookup v q"
proof (induction p arbitrary: v v' q)
  case Nil
  then show ?case by simp
next
  case (Cons n ns)
  from Cons.prems(1) obtain c c' where
    c: "FieldByName (Indirect (New v)) n = Inr c" and
    w: "walkNames c ns = Inr (c', r)" and
    v': "v' = storeField (New v) n c'"
    by (rule walkNames_ConsE)
  show ?case
  proof (cases q)
    case Nil
    with Cons.prems(2) show ?thesis by simp
  next
    case (Cons m ms)
    have F: "FieldByName (Indirect (New v')) m =
        (if m = n \<and> hasField (New v) n then Inr c' else FieldByName (Indirect (New v)) m)"
      unfolding v' New_storeField by (rule FieldByName_storeField[OF c])
    show ?thesis
    proof (cases "m = n")
      case True
      with Cons \<open>\<not> strict_prefix q (n # ns)\<close> have np: "\<not> strict_prefix ms ns" by simp
      show ?thesis
      proof (cases "hasField (New v) n")
        case True
        with F \<open>m = n\<close> Cons c Cons.IH[OF w np] show ?thesis by simp
      next
        case False
        with c have "c = VNil" using FieldByName_not_hasField by blast
        with w have "c' = VNil" using walkNames_VNil by blast
        with F \<open>m = n\<close> Cons c False show ?thesis by simp
      qed
    next
      case False
      with F Cons show ?thesis by simp
    qed
  qed
qed

lemma Kind_VNil_iff: "Kind v = KInvalid \<longleftrightarrow> v = VNil"
  by (cases v) auto

lemma walkNames_resolves:
  "walkNames v p = Inr (v', r) \<Longrightarrow> (lookup v' q = VNil) = (lookup v q = VNil)"
proof (induction p arbitrary: v v' q)
  case Nil
  then show ?case by simp
next
  case (Cons n ns)
  from Cons.prems(1) obtain c c' where
    c: "FieldByName (Indirect (New v)) n = Inr c" and
    w: "walkNames c ns = Inr (c', r)" and
    v': "v' = storeField (New v) n c'"
    by (rule walkNames_ConsE)
  show ?case
  proof (cases q)
    case Nil
    from c have "v \<noteq> VNil" by (cases v) auto
    moreover from Cons.prems(1) have "Kind v' = Kind v" by (rule walkNames_Kind)
    ultimately have "v' \<noteq> VNil" using Kind_VNil_iff by metis
    with \<open>v \<noteq> VNil\<close> Nil show ?thesis by simp
  next
    case (Cons m ms)
    have F: "FieldByName (Indirect (New v')) m =
        (if m = n \<and> hasField (New v) n then Inr c' else FieldByName (Indirect (New v)) m)"
      unfolding v' New_storeField by (rule FieldByName_storeField[OF c])
    show ?thesis
    proof (cases "m = n \<and> hasField (New v) n")
      case True
      with F Cons c Cons.IH[OF w, of ms] show ?thesis by simp
    next
      case False
      with F Cons show ?thesis by auto
    qed
  qed
qed

lemma peek_from_VNil: "peek VNil ns = VNil"
  by (cases ns) auto

lemma peek_Cons_nonnil:
  "peek v (n # ns) \<noteq> VNil \<Longrightarrow>
     \<exists>c. FieldByName (Indirect v) n = Inr c \<and> peek c ns \<noteq> VNil \<and> c \<noteq> VNil \<and> hasField v n \<and> New v = v"
proof -
  assume a: "peek v (n # ns) \<noteq> VNil"
  then obtain c where c: "FieldByName (Indirect v) n = Inr c" and p: "peek c ns \<noteq> VNil"
    by (auto split: sum.splits)
  from p have "c \<noteq> VNil" using peek_from_VNil by auto
  moreover from c this have "hasField v n" by (rule FieldByName_nonnil_hasField)
  moreover from c have "New v = v" by (cases v) auto
  ultimately show ?thesis using c p by blast
qed

lemma walkNames_peek_self:
  "walkNames v p = Inr (v', r) \<Longrightarrow> r \<noteq> VNil \<Longrightarrow> peek v' p = r"
proof (induction p arbitrary: v v')
  case Nil
  then show ?case by auto
next
  case (Cons n ns)
  from Cons.prems(1) obtain c c' where
    c: "FieldByName (Indirect (New v)) n = Inr c" and
    w: "walkNames c ns = Inr (c', r)" and
    v': "v' = storeField (New v) n c'"
    by (rule walkNames_ConsE)
  have "c \<noteq> VNil" using w Cons.prems(2) walkNames_VNil by blast
  with c have h: "hasField (New v) n" by (rule FieldByName_nonnil_hasField)
  have "FieldByName (Indirect v') n = Inr c'"
    unfolding v' using FieldByName_storeField[OF c, of c' n] h by simp
  with Cons.IH[OF w Cons.prems(2)] show ?case by simp
qed

lemma walkNames_peek_other:
  "walkNames v q = Inr (v', r) \<Longrightarrow> peek v p \<noteq> VNil \<Longrightarrow> \<not> strict_prefix p q
     \<Longrightarrow> peek v' p = peek v p"
proof (induction q arbitrary: v v' p)
  case Nil
  then show ?case by simp
next
  case (Cons m ms)
  from Cons.prems(1) obtain c c' where
    c: "FieldByName (Indirect (New v)) m = Inr c" and
    w: "walkNames c ms = Inr (c', r)" and
    v': "v' = storeField (New v) m c'"
    by (rule walkNames_ConsE)
  show ?case
  proof (cases p)
    case Nil
    with Cons.prems(3) show ?thesis by simp
  next
    case (Cons n ns)
    from Cons.prems(2) Cons obtain d where
      d: "FieldByName (Indirect v) n = Inr d" and pd: "peek d ns \<noteq> VNil"
      and hf: "hasField v n" and nv: "New v = v"
      using peek_Cons_nonnil by blast
    have F: "FieldByName (Indirect v') n =
        (if n = m \<and> hasField v m then Inr c' else FieldByName (Indirect v) n)"
      unfolding v' using FieldByName_storeField[OF c, of c' n] nv by simp
    show ?thesis
    proof (cases "n = m")
      case True
      with c d nv have "d = c" by simp
      from True Cons \<open>\<not> strict_prefix p (m # ms)\<close> have "\<not> strict_prefix ns ms" by simp
      with Cons.IH[OF w] pd \<open>d = c\<close> have "peek c' ns = peek c ns" by simp
      with F True hf d \<open>d = c\<close> Cons show ?thesis by simp
    next
      case False
      with F Cons show ?thesis by simp
    qed
  qed
qed

lemma peek_poke_same: "peek v p \<noteq> VNil \<Longrightarrow> peek (poke v p x) p = x"
proof (induction p arbitrary: v)
  case Nil
  then show ?case by simp
next
  case (Cons n ns)
  then obtain c where c: "FieldByName (Indirect v) n = Inr c" and pc: "peek c ns \<noteq> VNil"
    and hf: "hasField v n"
    using peek_Cons_nonnil by blast
  have "FieldByName (Indirect (storeField v n (poke c ns x))) n = Inr (poke c ns x)"
    using FieldByName_storeField[OF c, of "poke c ns x" n] hf by simp
  with c Cons.IH[OF pc] show ?case by simp
qed

lemma peek_poke_other:
  "\<not> prefix p q \<Longrightarrow> \<not> prefix q p \<Longrightarrow> peek (poke v q x) p = peek v p"
proof (induction q arbitrary: v p)
  case Nil
  then show ?case by simp
next
  case (Cons m ms)
  show ?case
  proof (cases p)
    case Nil
    with Cons.prems show ?thesis by simp
  next
    case (Cons n ns)
    show ?thesis
    proof (cases "FieldByName (Indirect v) m")
      case (Inl e)
      then show ?thesis by simp
    next
      case (Inr c)
      have F: "FieldByName (Indirect (storeField v m (poke c ms x))) n =
        (if n = m \<and> hasField v m then Inr (poke c ms x) else FieldByName (Indirect v) n)"
        by (rule FieldByName_storeField[OF Inr])
      show ?thesis
      proof (cases "n = m \<and> hasField v m")
        case True
        with Cons \<open>\<not> prefix p (m # ms)\<close> \<open>\<not> prefix (m # ms) p\<close>
        have "\<not> prefix ns ms" "\<not> prefix ms ns" by simp_all
        from Cons.IH[OF this] have "peek (poke c ms x) ns = peek c ns" .
        with F True Inr Cons show ?thesis by simp
      next
        case False
        with F Inr Cons show ?thesis by simp
      qed
    qed
  qed
qed

section \<open>Steps that touch one entry of the target\<close>

lemma touchesOnly_refl:
  "IndirectValue s = VSlice ys \<Longrightarrow> i < length ys \<Longrightarrow> touchesOnly i s s"
  unfolding touchesOnly_def
  by (rule exI[of _ ys], rule exI[of _ "ys ! i"], rule exI[of _ "SQLVars s"]) simp

lemma touchesOnly_trans:
  "touchesOnly i s s' \<Longrightarrow> touchesOnly i s' s'' \<Longrightarrow> touchesOnly i s s''"
proof -
  assume a: "touchesOnly i s s'" and b: "touchesOnly i s' s''"
  from a obtain ys e vars where 1: "IndirectValue s = VSlice ys" "i < length ys"
    "s' = s\<lparr>IndirectValue := VSlice (ys[i := e]), SQLVars := vars\<rparr>"
    unfolding touchesOnly_def by blast
  from b 1 obtain e' vars' where
    2: "s'' = s'\<lparr>IndirectValue := VSlice (ys[i := e, i := e']), SQLVars := vars'\<rparr>"
    unfolding touchesOnly_def by auto
  from 1 2 have "s'' = s\<lparr>IndirectValue := VSlice (ys[i := e']), SQLVars := vars'\<rparr>" by simp
  with 1 show ?thesis unfolding touchesOnly_def by blast
qed

lemma touchesOnlyD:
  assumes "touchesOnly i s s'" "IndirectValue s = VSlice ys"
  shows "\<exists>e. IndirectValue s' = VSlice (ys[i := e])" "i < length ys"
    "StructFields s' = StructFields s" "Error s' = Error s" "SQL s' = SQL s"
    "Settings s' = Settings s" "Ticks s' = Ticks s" "Executed s' = Executed s"
    "RowsAffected s' = RowsAffected s"
  using assms unfolding touchesOnly_def by auto

lemma structFieldsLoop_record:
  "\<forall>sf\<in>set sfs. lookup elem (Names sf) \<noteq> VNil \<Longrightarrow>
   \<exists>flds elem'. structFieldsLoop i sfs elem = Inr (flds, elem') \<and> map StructField flds = sfs \<and>
      (\<forall>f\<in>set flds. Field f = FieldOf i (Names (StructField f))) \<and> Kind elem' = Kind elem \<and>
      (\<forall>q. (lookup elem' q = VNil) = (lookup elem q = VNil))"
proof (induction sfs arbitrary: elem)
  case Nil
  then show ?case by simp
next
  case (Cons sf sfs)
  from Cons.prems have l: "lookup elem (Names sf) \<noteq> VNil" by simp
  from walkNames_ok[OF l] obtain e1 where w: "walkNames elem (Names sf) = Inr (e1, lookup elem (Names sf))"
    by blast
  have "\<forall>sf\<in>set sfs. lookup e1 (Names sf) \<noteq> VNil"
    using Cons.prems walkNames_resolves[OF w] by simp
  from Cons.IH[OF this] obtain flds elem' where
    r: "structFieldsLoop i sfs e1 = Inr (flds, elem')" "map StructField flds = sfs"
       "\<forall>f\<in>set flds. Field f = FieldOf i (Names (StructField f))" "Kind elem' = Kind e1"
       "\<forall>q. (lookup elem' q = VNil) = (lookup e1 q = VNil)"
    by blast
  from w have "Kind e1 = Kind elem" by (rule walkNames_Kind)
  moreover have "\<forall>q. (lookup elem' q = VNil) = (lookup elem q = VNil)"
    using r(5) walkNames_resolves[OF w] by simp
  ultimately show ?case using w r l by simp
qed

lemma Indirect_setIndirect:
  "Kind (Indirect entry) = KStruct \<Longrightarrow> Kind elem = KStruct \<Longrightarrow> Indirect (setIndirect entry elem) = elem"
  by (cases entry; cases elem) auto

lemma FiledsWithIndexForBatch_record:
  assumes "IndirectValue scope = VSlice ys" "i < length ys" "isRecord (StructFields scope) (ys ! i)"
  shows "\<exists>flds scope'. FiledsWithIndexForBatch scope (int i) = Inr (flds, scope') \<and>
           map StructField flds = StructFields scope \<and>
           (\<forall>f\<in>set flds. Field f = FieldOf i (Names (StructField f))) \<and>
           touchesOnly i scope scope' \<and> SQLVars scope' = SQLVars scope \<and>
           (\<exists>e. IndirectValue scope' = VSlice (ys[i := e]) \<and> isRecord (StructFields scope) e)"
proof -
  from assms(3) have k: "Kind (Indirect (ys ! i)) = KStruct"
    and l: "\<forall>sf\<in>set (StructFields scope). lookup (Indirect (ys ! i)) (Names sf) \<noteq> VNil"
    by (auto simp: isRecord_def list_all_iff)
  from structFieldsLoop_record[OF l, of i] obtain flds elem' where
    r: "structFieldsLoop i (StructFields scope) (Indirect (ys ! i)) = Inr (flds, elem')"
       "map StructField flds = StructFields scope"
       "\<forall>f\<in>set flds. Field f = FieldOf i (Names (StructField f))"
       "Kind elem' = Kind (Indirect (ys ! i))"
       "\<forall>q. (lookup elem' q = VNil) = (lookup (Indirect (ys ! i)) q = VNil)"
    by blast
  have "Indirect (setIndirect (ys ! i) elem') = elem'"
    using k r(4) by (simp add: Indirect_setIndirect)
  then have rec': "isRecord (StructFields scope) (setIndirect (ys ! i) elem')"
    using k r(4,5) l by (simp add: isRecord_def list_all_iff)
  let ?s' = "scope\<lparr>IndirectValue := VSlice (ys[i := setIndirect (ys ! i) elem'])\<rparr>"
  have "FiledsWithIndexForBatch scope (int i) = Inr (flds, ?s')"
    using assms(1,2) k r(1) by (simp add: FiledsWithIndexForBatch_def)
  moreover have "touchesOnly i scope ?s'"
    unfolding touchesOnly_def using assms(1,2)
    by (intro exI[of _ ys] exI[of _ "setIndirect (ys ! i) elem'"] exI[of _ "SQLVars scope"]) simp
  ultimately show ?thesis using r(2,3) rec' by auto
qed

declare rowsLoop.simps [simp del] stampElements.simps [simp del]

lemma FieldSet_FieldOf:
  "Field f = FieldOf i names \<Longrightarrow> IndirectValue s = VSlice ys \<Longrightarrow> i < length ys \<Longrightarrow>
   FieldSet s f v =
     s\<lparr>IndirectValue := VSlice (ys[i := setIndirect (ys ! i) (poke (Indirect (ys ! i)) names v)])\<rparr>"
  by (simp add: FieldSet_def elementAt_def)

lemma FieldSet_touches:
  assumes "Field f = FieldOf i names" "IndirectValue s = VSlice ys" "i < length ys"
  shows "touchesOnly i s (FieldSet s f v)" "SQLVars (FieldSet s f v) = SQLVars s"
proof -
  show "touchesOnly i s (FieldSet s f v)"
    unfolding touchesOnly_def FieldSet_FieldOf[OF assms] using assms(2,3)
    by (intro exI[of _ ys] exI[of _ "setIndirect (ys ! i) (poke (Indirect (ys ! i)) names v)"]
          exI[of _ "SQLVars s"]) simp
  show "SQLVars (FieldSet s f v) = SQLVars s"
    unfolding FieldSet_FieldOf[OF assms] by simp
qed

lemma FieldInterface_FieldOf:
  "Field f = FieldOf i names \<Longrightarrow> IndirectValue s = VSlice ys \<Longrightarrow> i < length ys \<Longrightarrow>
   FieldInterface s f = Inr (peek (Indirect (ys ! i)) names)"
  by (simp add: FieldInterface_def elementAt_def)

lemma boundValue_ok:
  assumes "Field f = FieldOf i names" "IndirectValue s = VSlice ys" "i < length ys"
  shows "\<exists>v s'. boundValue s f = Inr (v, s') \<and> touchesOnly i s s' \<and> SQLVars s' = SQLVars s"
  using FieldSet_touches[OF assms] touchesOnly_refl[OF assms(2,3)] FieldInterface_FieldOf[OF assms]
  by (auto simp: boundValue_def Let_def)

lemma AddToVars_touches:
  "IndirectValue s = VSlice ys \<Longrightarrow> i < length ys \<Longrightarrow> touchesOnly i s (snd (AddToVars env s v))"
  unfolding touchesOnly_def AddToVars_def
  by (intro exI[of _ ys] exI[of _ "ys ! i"] exI[of _ "SQLVars s @ [v]"]) simp

lemma rowFieldsLoop_count:
  assumes "\<forall>f\<in>set flds. Field f = FieldOf i (Names (StructField f))"
    and "IndirectValue s = VSlice ys" and "i < length ys"
  shows "\<exists>phs s'. rowFieldsLoop env ex flds vps s = Inr (vps @ phs, s') \<and>
           length phs = length (filter (\<lambda>f. ex (Name (StructField f))) flds) \<and>
           touchesOnly i s s' \<and> length (SQLVars s') = length (SQLVars s) + length phs"
  using assms
proof (induction flds arbitrary: vps s ys)
  case Nil
  then show ?case using touchesOnly_refl by auto
next
  case (Cons f flds)
  have F: "Field f = FieldOf i (Names (StructField f))" using Cons.prems(1) by simp
  have R: "\<forall>f\<in>set flds. Field f = FieldOf i (Names (StructField f))" using Cons.prems(1) by simp
  show ?case
  proof (cases "ex (Name (StructField f))")
    case False
    from Cons.IH[OF R Cons.prems(2,3), of vps] False show ?thesis by simp
  next
    case True
    from boundValue_ok[OF F Cons.prems(2,3)] obtain v s1 where
      b: "boundValue s f = Inr (v, s1)" "touchesOnly i s s1" "SQLVars s1 = SQLVars s" by blast
    from touchesOnlyD(1)[OF b(2) Cons.prems(2)] obtain e where
      y1: "IndirectValue s1 = VSlice (ys[i := e])" by blast
    obtain ph s2 where a: "AddToVars env s1 v = (ph, s2)" by (cases "AddToVars env s1 v")
    have i1: "i < length (ys[i := e])" using Cons.prems(3) by simp
    have t2: "touchesOnly i s1 s2" using AddToVars_touches[OF y1 i1, of env v] a by simp
    have v2: "SQLVars s2 = SQLVars s1 @ [v]" using a by (auto simp: AddToVars_def)
    from touchesOnlyD(1)[OF t2 y1] obtain e' where
      y2: "IndirectValue s2 = VSlice (ys[i := e, i := e'])" by blast
    have i2: "i < length (ys[i := e, i := e'])" using Cons.prems(3) by simp
    from Cons.IH[OF R y2 i2, of "vps @ [ph]"] obtain phs s' where
      r: "rowFieldsLoop env ex flds (vps @ [ph]) s2 = Inr ((vps @ [ph]) @ phs, s')"
         "length phs = length (filter (\<lambda>f. ex (Name (StructField f))) flds)"
         "touchesOnly i s2 s'" "length (SQLVars s') = length (SQLVars s2) + length phs"
      by blast
    have "touchesOnly i s s'" using b(2) t2 r(3) touchesOnly_trans by blast
    with True b a r v2 show ?thesis
      by (intro exI[of _ "ph # phs"] exI[of _ s']) simp
  qed
qed

lemma rowsLoop_count:
  assumes "IndirectValue scope = VSlice ys" "length ys = len" "k \<le> len"
    and "\<forall>j. k \<le> j \<and> j < len \<longrightarrow> isRecord (StructFields scope) (ys ! j)"
    and "length phs0 = len"
  shows "\<exists>phs scope' ys'. rowsLoop env ex k len phs0 scope = Inr (phs, scope') \<and>
           length phs = len \<and> (\<forall>j<k. phs ! j = phs0 ! j) \<and>
           (\<forall>j. k \<le> j \<and> j < len \<longrightarrow>
               length (phs ! j) = length (filter (\<lambda>sf. ex (Name sf)) (StructFields scope))) \<and>
           length (SQLVars scope') = length (SQLVars scope)
              + (len - k) * length (filter (\<lambda>sf. ex (Name sf)) (StructFields scope)) \<and>
           scope' = scope\<lparr>IndirectValue := VSlice ys', SQLVars := SQLVars scope'\<rparr> \<and>
           length ys' = len"
  using assms
proof (induction "len - k" arbitrary: k phs0 scope ys)
  case 0
  then have "k = len" by simp
  with 0 show ?case by (subst rowsLoop.simps) (auto intro!: exI[of _ ys])
next
  case (Suc n)
  let ?m = "length (filter (\<lambda>sf. ex (Name sf)) (StructFields scope))"
  from Suc.hyps(2) have kl: "k < len" by simp
  with Suc.prems have ky: "k < length ys" and rec: "isRecord (StructFields scope) (ys ! k)" by auto
  from FiledsWithIndexForBatch_record[OF Suc.prems(1) ky rec] obtain flds s1 where
    f: "FiledsWithIndexForBatch scope (int k) = Inr (flds, s1)"
       "map StructField flds = StructFields scope"
       "\<forall>f\<in>set flds. Field f = FieldOf k (Names (StructField f))"
       "touchesOnly k scope s1"
    by blast
  from touchesOnlyD(1)[OF f(4) Suc.prems(1)] obtain e where
    y1: "IndirectValue s1 = VSlice (ys[k := e])" by blast
  have k1: "k < length (ys[k := e])" using ky by simp
  from rowFieldsLoop_count[OF f(3) y1 k1, of env ex "[]"] obtain vps s2 where
    r: "rowFieldsLoop env ex flds [] s1 = Inr (vps, s2)"
       "length vps = length (filter (\<lambda>f. ex (Name (StructField f))) flds)"
       "touchesOnly k s1 s2" "length (SQLVars s2) = length (SQLVars s1) + length vps"
    by auto
  have lv: "length vps = ?m"
  proof -
    have "filter (\<lambda>sf. ex (Name sf)) (map StructField flds)
            = map StructField (filter (\<lambda>f. ex (Name (StructField f))) flds)"
      by (simp add: filter_map comp_def)
    then show ?thesis using r(2) f(2) by (metis length_map)
  qed
  have t02: "touchesOnly k scope s2" using f(4) r(3) touchesOnly_trans by blast
  from touchesOnlyD(1)[OF t02 Suc.prems(1)] obtain e2 where
    y2: "IndirectValue s2 = VSlice (ys[k := e2])" by blast
  have sf2: "StructFields s2 = StructFields scope" using touchesOnlyD(3)[OF t02 Suc.prems(1)] .
  have v1: "SQLVars s1 = SQLVars scope"
    using FiledsWithIndexForBatch_record[OF Suc.prems(1) ky rec] f(1) by auto
  have n: "n = len - Suc k" using Suc.hyps(2) by simp
  have P2: "length (ys[k := e2]) = len" using Suc.prems(2) by simp
  have P3: "Suc k \<le> len" using kl by simp
  have P4: "\<forall>j. Suc k \<le> j \<and> j < len \<longrightarrow> isRecord (StructFields s2) ((ys[k := e2]) ! j)"
    using Suc.prems(4) sf2 by auto
  have P5: "length (phs0[k := vps]) = len" using Suc.prems(5) by simp
  from Suc.hyps(1)[OF n y2 P2 P3 P4 P5] obtain phs scope' ys' where
    ih: "rowsLoop env ex (Suc k) len (phs0[k := vps]) s2 = Inr (phs, scope')"
        "length phs = len" "\<forall>j<Suc k. phs ! j = (phs0[k := vps]) ! j"
        "\<forall>j. Suc k \<le> j \<and> j < len \<longrightarrow> length (phs ! j) = ?m"
        "length (SQLVars scope') = length (SQLVars s2) + (len - Suc k) * ?m"
        "scope' = s2\<lparr>IndirectValue := VSlice ys', SQLVars := SQLVars scope'\<rparr>"
        "length ys' = len"
    unfolding sf2 by blast
  have run: "rowsLoop env ex k len phs0 scope = Inr (phs, scope')"
    by (subst rowsLoop.simps) (simp add: kl f(1) r(1) ih(1))
  have a1: "\<forall>j<k. phs ! j = phs0 ! j" using ih(3) by auto
  have "phs ! k = vps" using ih(3) Suc.prems(5) kl by auto
  then have a2: "\<forall>j. k \<le> j \<and> j < len \<longrightarrow> length (phs ! j) = ?m"
    using ih(4) lv by (metis Suc_leI le_neq_implies_less)
  have a3: "length (SQLVars scope') = length (SQLVars scope) + (len - k) * ?m"
  proof -
    have "len - k = Suc (len - Suc k)" using kl by simp
    then show ?thesis using ih(5) r(4) v1 lv by simp
  qed
  have a4: "scope' = scope\<lparr>IndirectValue := VSlice ys', SQLVars := SQLVars scope'\<rparr>"
  proof -
    from t02 obtain zs e3 vars where "s2 = scope\<lparr>IndirectValue := VSlice (zs[k := e3]), SQLVars := vars\<rparr>"
      unfolding touchesOnly_def by blast
    then have "s2\<lparr>IndirectValue := VSlice ys', SQLVars := SQLVars scope'\<rparr>
        = scope\<lparr>IndirectValue := VSlice ys', SQLVars := SQLVars scope'\<rparr>" by simp
    with ih(6) show ?thesis by simp
  qed
  from run ih(2) a1 a2 a3 a4 ih(7) show ?case by blast
qed

section \<open>Independent writes to one element\<close>

lemma pokeFields_frame:
  "\<forall>sf\<in>set rest. \<not> prefix p (Names sf) \<and> \<not> prefix (Names sf) p \<Longrightarrow>
   peek (pokeFields w rest cur) p = peek cur p"
proof (induction rest arbitrary: cur)
  case Nil
  then show ?case by simp
next
  case (Cons sf rest)
  then show ?case by (cases "w sf") (simp_all add: peek_poke_other)
qed

lemma pokeFields_peek:
  assumes "pathsIndependent (map Names rest)" "\<forall>sf\<in>set rest. peek cur (Names sf) \<noteq> VNil"
  shows "\<forall>sf\<in>set rest. peek (pokeFields w rest cur) (Names sf)
           = (case w sf of Some x \<Rightarrow> x | None \<Rightarrow> peek cur (Names sf))"
  using assms
proof (induction rest arbitrary: cur)
  case Nil
  then show ?case by simp
next
  case (Cons sf rest)
  let ?cur1 = "case w sf of Some x \<Rightarrow> poke cur (Names sf) x | None \<Rightarrow> cur"
  from Cons.prems(1) have ind: "\<forall>sf'\<in>set rest. \<not> prefix (Names sf) (Names sf') \<and> \<not> prefix (Names sf') (Names sf)"
    and pi: "pathsIndependent (map Names rest)" by auto
  have same: "\<forall>sf'\<in>set rest. peek ?cur1 (Names sf') = peek cur (Names sf')"
    using ind by (cases "w sf") (simp_all add: peek_poke_other)
  with Cons.prems(2) have nn: "\<forall>sf'\<in>set rest. peek ?cur1 (Names sf') \<noteq> VNil" by simp
  have tail: "\<forall>sf'\<in>set rest. peek (pokeFields w rest ?cur1) (Names sf')
           = (case w sf' of Some x \<Rightarrow> x | None \<Rightarrow> peek cur (Names sf'))"
    using Cons.IH[OF pi nn] same by (auto split: option.splits)
  have "peek (pokeFields w rest ?cur1) (Names sf) = peek ?cur1 (Names sf)"
    using ind by (intro pokeFields_frame) auto
  moreover have "peek ?cur1 (Names sf) = (case w sf of Some x \<Rightarrow> x | None \<Rightarrow> peek cur (Names sf))"
    using Cons.prems(2) by (cases "w sf") (simp_all add: peek_poke_same)
  ultimately show ?case using tail by simp
qed

lemma Kind_poke_notPtr:
  "Kind cur \<noteq> KPtr \<Longrightarrow> Kind x \<noteq> KPtr \<Longrightarrow> Kind (poke cur p x) \<noteq> KPtr"
  by (cases p) (auto simp: Kind_storeField split: sum.splits)

lemma Kind_pokeFields_notPtr:
  "Kind cur \<noteq> KPtr \<Longrightarrow> (\<forall>sf x. w sf = Some x \<longrightarrow> Kind x \<noteq> KPtr) \<Longrightarrow>
   Kind (pokeFields w rest cur) \<noteq> KPtr"
proof (induction rest arbitrary: cur)
  case Nil
  then show ?case by simp
next
  case (Cons sf rest)
  then show ?case by (cases "w sf") (simp_all add: Kind_poke_notPtr)
qed

lemma Indirect_setIndirect_notPtr:
  "Kind a \<noteq> KPtr \<Longrightarrow> Indirect (setIndirect e a) = a"
  by (cases e; cases a) auto

lemma setIndirect_twice:
  "Kind a \<noteq> KPtr \<Longrightarrow> setIndirect (setIndirect e a) b = setIndirect e b"
  by (cases e; cases a) auto

lemma setIndirect_Indirect:
  "\<not> IsNil e \<Longrightarrow> Kind (Indirect e) \<noteq> KPtr \<Longrightarrow> setIndirect e (Indirect e) = e"
  by (cases e) auto

lemma IsNil_setIndirect:
  "Kind a \<noteq> KPtr \<Longrightarrow> \<not> IsNil (setIndirect e a)"
  by (cases e; cases a) auto

lemma structFieldsLoop_values:
  assumes "pathsIndependent (map Names sfs)" "\<forall>sf\<in>set sfs. lookup elem (Names sf) \<noteq> VNil"
  shows "\<exists>elem'. structFieldsLoop i sfs elem = Inr (map (mkField i elem) sfs, elem') \<and>
           (\<forall>sf\<in>set sfs. peek elem' (Names sf) = lookup elem (Names sf)) \<and>
           Kind elem' = Kind elem \<and>
           (\<forall>p. peek elem p \<noteq> VNil \<and> (\<forall>sf\<in>set sfs. \<not> strict_prefix p (Names sf))
                 \<longrightarrow> peek elem' p = peek elem p) \<and>
           (\<forall>q. (\<forall>sf\<in>set sfs. \<not> strict_prefix q (Names sf)) \<longrightarrow> lookup elem' q = lookup elem q)"
  using assms
proof (induction sfs arbitrary: elem)
  case Nil
  then show ?case by simp
next
  case (Cons sf sfs)
  from Cons.prems(1) have ind: "\<forall>sf'\<in>set sfs. \<not> prefix (Names sf) (Names sf') \<and> \<not> prefix (Names sf') (Names sf)"
    and pi: "pathsIndependent (map Names sfs)" by auto
  from Cons.prems(2) have l: "lookup elem (Names sf) \<noteq> VNil" by simp
  from walkNames_ok[OF l] obtain e1 where
    w: "walkNames elem (Names sf) = Inr (e1, lookup elem (Names sf))" by blast
  have lk: "\<forall>sf'\<in>set sfs. lookup e1 (Names sf') = lookup elem (Names sf')"
    using ind walkNames_lookup_other[OF w] by (auto simp: strict_prefix_def)
  with Cons.prems(2) have nn: "\<forall>sf'\<in>set sfs. lookup e1 (Names sf') \<noteq> VNil" by simp
  from Cons.IH[OF pi nn] obtain elem' where
    r: "structFieldsLoop i sfs e1 = Inr (map (mkField i e1) sfs, elem')"
       "\<forall>sf'\<in>set sfs. peek elem' (Names sf') = lookup e1 (Names sf')"
       "Kind elem' = Kind e1"
       "\<forall>p. peek e1 p \<noteq> VNil \<and> (\<forall>sf'\<in>set sfs. \<not> strict_prefix p (Names sf'))
                 \<longrightarrow> peek elem' p = peek e1 p"
       "\<forall>q. (\<forall>sf'\<in>set sfs. \<not> strict_prefix q (Names sf')) \<longrightarrow> lookup elem' q = lookup e1 q"
    by blast
  have m: "map (mkField i e1) sfs = map (mkField i elem) sfs"
    using lk by (simp add: mkField_def)
  have k: "Kind e1 = Kind elem" using w by (rule walkNames_Kind)
  have self: "peek e1 (Names sf) = lookup elem (Names sf)"
    using walkNames_peek_self[OF w l] .
  have "peek elem' (Names sf) = peek e1 (Names sf)"
    using r(4) self l ind by (auto simp: strict_prefix_def)
  with self have head: "peek elem' (Names sf) = lookup elem (Names sf)" by simp
  have frame: "\<forall>p. peek elem p \<noteq> VNil \<and> (\<forall>sf'\<in>set (sf # sfs). \<not> strict_prefix p (Names sf'))
                 \<longrightarrow> peek elem' p = peek elem p"
  proof (intro allI impI)
    fix p assume a: "peek elem p \<noteq> VNil \<and> (\<forall>sf'\<in>set (sf # sfs). \<not> strict_prefix p (Names sf'))"
    then have "peek e1 p = peek elem p" using walkNames_peek_other[OF w] by simp
    moreover from this a have "peek elem' p = peek e1 p" using r(4) by simp
    ultimately show "peek elem' p = peek elem p" by simp
  qed
  have run: "structFieldsLoop i (sf # sfs) elem = Inr (map (mkField i elem) (sf # sfs), elem')"
    using w r(1) m l by (simp add: mkField_def)
  have lframe: "\<forall>q. (\<forall>sf'\<in>set (sf # sfs). \<not> strict_prefix q (Names sf'))
                 \<longrightarrow> lookup elem' q = lookup elem q"
    using r(5) walkNames_lookup_other[OF w] by simp
  from run head r(2) lk r(3) k frame lframe show ?case by auto
qed

section \<open>The loops over the descriptors of one element\<close>

lemma Scope_target_id: "IndirectValue s = v \<Longrightarrow> s\<lparr>IndirectValue := v\<rparr> = s"
  by (cases s) simp

lemma stampFields_eq:
  assumes "IndirectValue s = VSlice ys" "i < length ys" "\<not> IsNil (ys ! i)"
    "Kind (Indirect (ys ! i)) \<noteq> KPtr"
  shows "stampFields (VTime t) (map (mkField i elem0) rest) s =
     s\<lparr>IndirectValue := VSlice (ys[i := setIndirect (ys ! i)
           (pokeFields (stampW (VTime t) elem0) rest (Indirect (ys ! i)))])\<rparr>"
  using assms
proof (induction rest arbitrary: s ys)
  case Nil
  then show ?case by (simp add: setIndirect_Indirect Scope_target_id)
next
  case (Cons sf rest)
  show ?case
  proof (cases "stampW (VTime t) elem0 sf")
    case None
    then have "stampFields (VTime t) (map (mkField i elem0) (sf # rest)) s
        = stampFields (VTime t) (map (mkField i elem0) rest) s"
      by (auto simp: mkField_def stampW_def namedTimestamp_def split: if_splits)
    with Cons.IH[OF Cons.prems] None show ?thesis by simp
  next
    case (Some x)
    then have x: "x = VTime t" and c: "isBlank (lookup elem0 (Names sf))" "namedTimestamp sf"
      by (auto simp: stampW_def split: if_splits)
    let ?e1 = "setIndirect (ys ! i) (poke (Indirect (ys ! i)) (Names sf) (VTime t))"
    let ?s1 = "s\<lparr>IndirectValue := VSlice (ys[i := ?e1])\<rparr>"
    have fs: "FieldSet s (mkField i elem0 sf) (VTime t) = ?s1"
      by (rule FieldSet_FieldOf[OF _ Cons.prems(1,2)]) (simp add: mkField_def)
    have step: "stampFields (VTime t) (map (mkField i elem0) (sf # rest)) s
        = stampFields (VTime t) (map (mkField i elem0) rest) ?s1"
      using c fs by (auto simp: mkField_def namedTimestamp_def)
    have kp: "Kind (poke (Indirect (ys ! i)) (Names sf) (VTime t)) \<noteq> KPtr"
      using Cons.prems(4) by (intro Kind_poke_notPtr) simp_all
    have 1: "IndirectValue ?s1 = VSlice (ys[i := ?e1])" by simp
    have 2: "i < length (ys[i := ?e1])" using Cons.prems(2) by simp
    have 3: "\<not> IsNil ((ys[i := ?e1]) ! i)" using Cons.prems(2) kp by (simp add: IsNil_setIndirect)
    have 4: "Kind (Indirect ((ys[i := ?e1]) ! i)) \<noteq> KPtr"
      using Cons.prems(2) kp by (simp add: Indirect_setIndirect_notPtr)
    show ?thesis
      unfolding step Cons.IH[OF 1 2 3 4]
      using Cons.prems(2) kp Some x
      by (simp add: Indirect_setIndirect_notPtr setIndirect_twice)
  qed
qed

lemma boundValue_mkField:
  assumes "IndirectValue s = VSlice ys" "i < length ys"
    "peek (Indirect (ys ! i)) (Names sf) = lookup elem0 (Names sf)"
  shows "boundValue s (mkField i elem0 sf) =
     Inr (rowValue elem0 sf,
          case defaultW (\<lambda>n. True) elem0 sf of
            Some x \<Rightarrow> s\<lparr>IndirectValue := VSlice (ys[i := setIndirect (ys ! i)
                          (poke (Indirect (ys ! i)) (Names sf) x)])\<rparr>
          | None \<Rightarrow> s)"
proof -
  have f: "Field (mkField i elem0 sf) = FieldOf i (Names sf)" by (simp add: mkField_def)
  show ?thesis
    using FieldInterface_FieldOf[OF f assms(1,2)] FieldSet_FieldOf[OF f assms(1,2)] assms(3)
    by (auto simp: boundValue_def rowValue_def defaultW_def mkField_def Let_def)
qed

lemma rowFieldsLoop_eq:
  assumes "IndirectValue s = VSlice ys" "i < length ys" "\<not> IsNil (ys ! i)"
    "Kind (Indirect (ys ! i)) \<noteq> KPtr"
    "pathsIndependent (map Names rest)"
    "\<forall>sf\<in>set rest. peek (Indirect (ys ! i)) (Names sf) = lookup elem0 (Names sf)"
  shows "\<exists>phs. rowFieldsLoop env ex (map (mkField i elem0) rest) vps s =
     Inr (vps @ phs,
          s\<lparr>IndirectValue := VSlice (ys[i := setIndirect (ys ! i)
                (pokeFields (defaultW ex elem0) rest (Indirect (ys ! i)))]),
            SQLVars := SQLVars s @ map (rowValue elem0) (filter (\<lambda>sf. ex (Name sf)) rest)\<rparr>)
     \<and> length phs = length (filter (\<lambda>sf. ex (Name sf)) rest)"
  using assms
proof (induction rest arbitrary: s ys vps)
  case Nil
  then show ?case by (simp add: setIndirect_Indirect Scope_target_id)
next
  case (Cons sf rest)
  from Cons.prems(5) have ind: "\<forall>sf'\<in>set rest. \<not> prefix (Names sf) (Names sf') \<and> \<not> prefix (Names sf') (Names sf)"
    and pi: "pathsIndependent (map Names rest)" by auto
  have pk: "peek (Indirect (ys ! i)) (Names sf) = lookup elem0 (Names sf)"
    and pr: "\<forall>sf\<in>set rest. peek (Indirect (ys ! i)) (Names sf) = lookup elem0 (Names sf)"
    using Cons.prems(6) by simp_all
  show ?case
  proof (cases "ex (Name sf)")
    case False
    then have d: "defaultW ex elem0 sf = None" by (simp add: defaultW_def)
    have n: "Name (StructField (mkField i elem0 sf)) = Name sf" by (simp add: mkField_def)
    from Cons.IH[OF Cons.prems(1,2,3,4) pi pr, of vps] False d n show ?thesis by simp
  next
    case True
    then have dw: "defaultW ex elem0 sf = defaultW (\<lambda>n. True) elem0 sf" by (simp add: defaultW_def)
    have n: "Name (StructField (mkField i elem0 sf)) = Name sf" by (simp add: mkField_def)
    let ?cur1 = "case defaultW ex elem0 sf of Some x \<Rightarrow> poke (Indirect (ys ! i)) (Names sf) x
                   | None \<Rightarrow> Indirect (ys ! i)"
    let ?e1 = "setIndirect (ys ! i) ?cur1"
    let ?s1 = "s\<lparr>IndirectValue := VSlice (ys[i := ?e1])\<rparr>"
    let ?v = "rowValue elem0 sf"
    let ?s2 = "?s1\<lparr>SQLVars := SQLVars s @ [?v]\<rparr>"
    have bv: "boundValue s (mkField i elem0 sf) = Inr (?v, ?s1)"
      unfolding boundValue_mkField[OF Cons.prems(1,2) pk] dw[symmetric]
      using Cons.prems(1,3,4)
      by (cases "defaultW ex elem0 sf") (simp_all add: setIndirect_Indirect Scope_target_id)
    have av: "AddToVars env ?s1 ?v = (BindVar env (Suc (length (SQLVars s))), ?s2)"
      by (simp add: AddToVars_def)
    have kp: "Kind ?cur1 \<noteq> KPtr"
    proof (cases "defaultW ex elem0 sf")
      case None
      then show ?thesis using Cons.prems(4) by simp
    next
      case (Some x)
      then have "Kind x \<noteq> KPtr" by (auto simp: defaultW_def split: if_splits)
      with Some Cons.prems(4) show ?thesis by (simp add: Kind_poke_notPtr)
    qed
    have 1: "IndirectValue ?s2 = VSlice (ys[i := ?e1])" by simp
    have 2: "i < length (ys[i := ?e1])" using Cons.prems(2) by simp
    have 3: "\<not> IsNil ((ys[i := ?e1]) ! i)" using Cons.prems(2) kp by (simp add: IsNil_setIndirect)
    have ie: "Indirect ((ys[i := ?e1]) ! i) = ?cur1"
      using Cons.prems(2) kp by (simp add: Indirect_setIndirect_notPtr)
    have 4: "Kind (Indirect ((ys[i := ?e1]) ! i)) \<noteq> KPtr" using ie kp by simp
    have 6: "\<forall>sf'\<in>set rest. peek (Indirect ((ys[i := ?e1]) ! i)) (Names sf') = lookup elem0 (Names sf')"
      unfolding ie using pr ind
      by (cases "defaultW ex elem0 sf") (simp_all add: peek_poke_other)
    from Cons.IH[OF 1 2 3 4 pi 6, of "vps @ [BindVar env (Suc (length (SQLVars s)))]"]
    obtain phs where
      r: "rowFieldsLoop env ex (map (mkField i elem0) rest)
            (vps @ [BindVar env (Suc (length (SQLVars s)))]) ?s2 =
          Inr ((vps @ [BindVar env (Suc (length (SQLVars s)))]) @ phs,
            ?s2\<lparr>IndirectValue := VSlice ((ys[i := ?e1])[i := setIndirect ((ys[i := ?e1]) ! i)
                (pokeFields (defaultW ex elem0) rest (Indirect ((ys[i := ?e1]) ! i)))]),
              SQLVars := SQLVars ?s2 @ map (rowValue elem0) (filter (\<lambda>sf. ex (Name sf)) rest)\<rparr>)"
        "length phs = length (filter (\<lambda>sf. ex (Name sf)) rest)"
      by blast
    have fin: "?s2\<lparr>IndirectValue := VSlice ((ys[i := ?e1])[i := setIndirect ((ys[i := ?e1]) ! i)
                (pokeFields (defaultW ex elem0) rest (Indirect ((ys[i := ?e1]) ! i)))]),
              SQLVars := SQLVars ?s2 @ map (rowValue elem0) (filter (\<lambda>sf. ex (Name sf)) rest)\<rparr>
        = s\<lparr>IndirectValue := VSlice (ys[i := setIndirect (ys ! i)
                (pokeFields (defaultW ex elem0) (sf # rest) (Indirect (ys ! i)))]),
            SQLVars := SQLVars s @ map (rowValue elem0) (filter (\<lambda>sf. ex (Name sf)) (sf # rest))\<rparr>"
      unfolding ie using Cons.prems(2) kp True
      by (simp add: setIndirect_twice)
    show ?thesis
      apply (rule exI[of _ "BindVar env (Suc (length (SQLVars s))) # phs"])
      using True n bv av r fin by simp
  qed
qed

lemma pathsIndependent_strict:
  "pathsIndependent (map Names sfs) \<Longrightarrow>
   \<forall>sf\<in>set sfs. \<forall>sf'\<in>set sfs. \<not> strict_prefix (Names sf) (Names sf')"
  by (induction sfs) (auto simp: strict_prefix_def)

lemma FiledsWithIndexForBatch_values:
  assumes "IndirectValue s = VSlice ys" "i < length ys" "isRecord (StructFields s) (ys ! i)"
    "pathsIndependent (map Names (StructFields s))"
  shows "\<exists>e1. FiledsWithIndexForBatch s (int i) =
            Inr (map (mkField i (Indirect (ys ! i))) (StructFields s),
                 s\<lparr>IndirectValue := VSlice (ys[i := setIndirect (ys ! i) e1])\<rparr>) \<and>
          (\<forall>sf\<in>set (StructFields s). peek e1 (Names sf) = lookup (Indirect (ys ! i)) (Names sf)) \<and>
          Kind e1 = KStruct \<and>
          (\<forall>sf\<in>set (StructFields s). lookup e1 (Names sf) = lookup (Indirect (ys ! i)) (Names sf))"
proof -
  from assms(3) have k: "Kind (Indirect (ys ! i)) = KStruct"
    and l: "\<forall>sf\<in>set (StructFields s). lookup (Indirect (ys ! i)) (Names sf) \<noteq> VNil"
    by (auto simp: isRecord_def list_all_iff)
  from structFieldsLoop_values[OF assms(4) l, of i] obtain e1 where
    r: "structFieldsLoop i (StructFields s) (Indirect (ys ! i))
          = Inr (map (mkField i (Indirect (ys ! i))) (StructFields s), e1)"
       "\<forall>sf\<in>set (StructFields s). peek e1 (Names sf) = lookup (Indirect (ys ! i)) (Names sf)"
       "Kind e1 = Kind (Indirect (ys ! i))"
       "\<forall>q. (\<forall>sf\<in>set (StructFields s). \<not> strict_prefix q (Names sf))
              \<longrightarrow> lookup e1 q = lookup (Indirect (ys ! i)) q"
    by blast
  have ind: "\<forall>sf\<in>set (StructFields s). \<forall>sf'\<in>set (StructFields s). \<not> strict_prefix (Names sf) (Names sf')"
    using assms(4) by (rule pathsIndependent_strict)
  have lk: "\<forall>sf\<in>set (StructFields s). lookup e1 (Names sf) = lookup (Indirect (ys ! i)) (Names sf)"
    using r(4) ind by blast
  have "FiledsWithIndexForBatch s (int i) =
            Inr (map (mkField i (Indirect (ys ! i))) (StructFields s),
                 s\<lparr>IndirectValue := VSlice (ys[i := setIndirect (ys ! i) e1])\<rparr>)"
    using assms(1,2) k r(1) by (simp add: FiledsWithIndexForBatch_def)
  with r(2,3) k lk show ?thesis by auto
qed

lemma rowValue_cong:
  "lookup e (Names sf) = lookup e' (Names sf) \<Longrightarrow> rowValue e sf = rowValue e' sf"
  by (simp add: rowValue_def)

lemma writtenBack_cong:
  "lookup e (Names sf) = lookup e' (Names sf) \<Longrightarrow> writtenBack ex e sf = writtenBack ex e' sf"
  by (simp add: writtenBack_def)

lemma stamp_step:
  assumes "IndirectValue s = VSlice ys" "i < length ys" "isRecord (StructFields s) (ys ! i)"
    "pathsIndependent (map Names (StructFields s))"
  shows "\<exists>flds s1 e'. FiledsWithIndexForBatch s (int i) = Inr (flds, s1) \<and>
           stampFields (VTime t) flds s1 = s\<lparr>IndirectValue := VSlice (ys[i := e'])\<rparr> \<and>
           (\<forall>sf\<in>set (StructFields s).
               peek (Indirect e') (Names sf) = stamped (VTime t) (Indirect (ys ! i)) sf)"
proof -
  let ?sfs = "StructFields s" and ?elem0 = "Indirect (ys ! i)"
  from FiledsWithIndexForBatch_values[OF assms] obtain e1 where
    f: "FiledsWithIndexForBatch s (int i) =
            Inr (map (mkField i ?elem0) ?sfs, s\<lparr>IndirectValue := VSlice (ys[i := setIndirect (ys ! i) e1])\<rparr>)"
       "\<forall>sf\<in>set ?sfs. peek e1 (Names sf) = lookup ?elem0 (Names sf)"
       "Kind e1 = KStruct"
    by blast
  let ?s1 = "s\<lparr>IndirectValue := VSlice (ys[i := setIndirect (ys ! i) e1])\<rparr>"
  let ?ys1 = "ys[i := setIndirect (ys ! i) e1]"
  let ?w = "stampW (VTime t) ?elem0"
  let ?fin = "pokeFields ?w ?sfs e1"
  have kp: "Kind e1 \<noteq> KPtr" using f(3) by simp
  have 1: "IndirectValue ?s1 = VSlice ?ys1" by simp
  have 2: "i < length ?ys1" using assms(2) by simp
  have 3: "\<not> IsNil (?ys1 ! i)" using assms(2) kp by (simp add: IsNil_setIndirect)
  have ie: "Indirect (?ys1 ! i) = e1" using assms(2) kp by (simp add: Indirect_setIndirect_notPtr)
  have 4: "Kind (Indirect (?ys1 ! i)) \<noteq> KPtr" using ie kp by simp
  have st: "stampFields (VTime t) (map (mkField i ?elem0) ?sfs) ?s1 =
      s\<lparr>IndirectValue := VSlice (ys[i := setIndirect (ys ! i) ?fin])\<rparr>"
    unfolding stampFields_eq[OF 1 2 3 4] ie using assms(2) kp by (simp add: setIndirect_twice)
  have kf: "Kind ?fin \<noteq> KPtr"
    by (rule Kind_pokeFields_notPtr[OF kp]) (auto simp: stampW_def split: if_splits)
  from assms(3) have l: "\<forall>sf\<in>set ?sfs. lookup ?elem0 (Names sf) \<noteq> VNil"
    by (auto simp: isRecord_def list_all_iff)
  with f(2) have nn: "\<forall>sf\<in>set ?sfs. peek e1 (Names sf) \<noteq> VNil" by simp
  have vals: "\<forall>sf\<in>set ?sfs. peek ?fin (Names sf) = stamped (VTime t) ?elem0 sf"
    using pokeFields_peek[OF assms(4) nn, of ?w] f(2)
    by (auto simp: stamped_def stampW_def)
  have "Indirect (setIndirect (ys ! i) ?fin) = ?fin" using kf by (rule Indirect_setIndirect_notPtr)
  with f(1) st vals show ?thesis by auto
qed

lemma row_step:
  assumes "IndirectValue s = VSlice ys" "i < length ys" "isRecord (StructFields s) (ys ! i)"
    "pathsIndependent (map Names (StructFields s))"
  shows "\<exists>flds s1 vps e'. FiledsWithIndexForBatch s (int i) = Inr (flds, s1) \<and>
           rowFieldsLoop env ex flds [] s1 =
             Inr (vps, s\<lparr>IndirectValue := VSlice (ys[i := e']),
                        SQLVars := SQLVars s @ map (rowValue (Indirect (ys ! i)))
                                   (filter (\<lambda>sf. ex (Name sf)) (StructFields s))\<rparr>) \<and>
           length vps = length (filter (\<lambda>sf. ex (Name sf)) (StructFields s)) \<and>
           (\<forall>sf\<in>set (StructFields s).
               peek (Indirect e') (Names sf) = writtenBack ex (Indirect (ys ! i)) sf)"
proof -
  let ?sfs = "StructFields s" and ?elem0 = "Indirect (ys ! i)"
  from FiledsWithIndexForBatch_values[OF assms] obtain e1 where
    f: "FiledsWithIndexForBatch s (int i) =
            Inr (map (mkField i ?elem0) ?sfs, s\<lparr>IndirectValue := VSlice (ys[i := setIndirect (ys ! i) e1])\<rparr>)"
       "\<forall>sf\<in>set ?sfs. peek e1 (Names sf) = lookup ?elem0 (Names sf)"
       "Kind e1 = KStruct"
    by blast
  let ?s1 = "s\<lparr>IndirectValue := VSlice (ys[i := setIndirect (ys ! i) e1])\<rparr>"
  let ?ys1 = "ys[i := setIndirect (ys ! i) e1]"
  let ?w = "defaultW ex ?elem0"
  let ?fin = "pokeFields ?w ?sfs e1"
  have kp: "Kind e1 \<noteq> KPtr" using f(3) by simp
  have 1: "IndirectValue ?s1 = VSlice ?ys1" by simp
  have 2: "i < length ?ys1" using assms(2) by simp
  have 3: "\<not> IsNil (?ys1 ! i)" using assms(2) kp by (simp add: IsNil_setIndirect)
  have ie: "Indirect (?ys1 ! i) = e1" using assms(2) kp by (simp add: Indirect_setIndirect_notPtr)
  have 4: "Kind (Indirect (?ys1 ! i)) \<noteq> KPtr" using ie kp by simp
  have 6: "\<forall>sf\<in>set ?sfs. peek (Indirect (?ys1 ! i)) (Names sf) = lookup ?elem0 (Names sf)"
    unfolding ie using f(2) .
  from rowFieldsLoop_eq[OF 1 2 3 4 assms(4) 6, of env ex "[]"] obtain vps where
    r: "rowFieldsLoop env ex (map (mkField i ?elem0) ?sfs) [] ?s1 =
          Inr (vps, ?s1\<lparr>IndirectValue := VSlice (?ys1[i := setIndirect (?ys1 ! i)
                (pokeFields ?w ?sfs (Indirect (?ys1 ! i)))]),
            SQLVars := SQLVars ?s1 @ map (rowValue ?elem0) (filter (\<lambda>sf. ex (Name sf)) ?sfs)\<rparr>)"
       "length vps = length (filter (\<lambda>sf. ex (Name sf)) ?sfs)"
    by auto
  have fin: "?s1\<lparr>IndirectValue := VSlice (?ys1[i := setIndirect (?ys1 ! i)
                (pokeFields ?w ?sfs (Indirect (?ys1 ! i)))]),
            SQLVars := SQLVars ?s1 @ map (rowValue ?elem0) (filter (\<lambda>sf. ex (Name sf)) ?sfs)\<rparr>
       = s\<lparr>IndirectValue := VSlice (ys[i := setIndirect (ys ! i) ?fin]),
            SQLVars := SQLVars s @ map (rowValue ?elem0) (filter (\<lambda>sf. ex (Name sf)) ?sfs)\<rparr>"
    unfolding ie using assms(2) kp by (simp add: setIndirect_twice)
  have kf: "Kind ?fin \<noteq> KPtr"
    by (rule Kind_pokeFields_notPtr[OF kp]) (auto simp: defaultW_def split: if_splits)
  from assms(3) have l: "\<forall>sf\<in>set ?sfs. lookup ?elem0 (Names sf) \<noteq> VNil"
    by (auto simp: isRecord_def list_all_iff)
  with f(2) have nn: "\<forall>sf\<in>set ?sfs. peek e1 (Names sf) \<noteq> VNil" by simp
  have vals: "\<forall>sf\<in>set ?sfs. peek ?fin (Names sf) = writtenBack ex ?elem0 sf"
    using pokeFields_peek[OF assms(4) nn, of ?w] f(2)
    by (auto simp: writtenBack_def defaultW_def)
  have "Indirect (setIndirect (ys ! i) ?fin) = ?fin" using kf by (rule Indirect_setIndirect_notPtr)
  with f(1) r fin vals show ?thesis by auto
qed

section \<open>The loops over the elements\<close>

lemma columnsLoop_eq:
  "columnsLoop env flds (cols, ex) =
     (cols @ map (\<lambda>sf. Quote env (DBName sf)) (columnFields (map StructField flds)),
      (\<lambda>n. ex n \<or> inColumnSet (map StructField flds) n))"
proof (induction flds arbitrary: cols ex)
  case Nil
  then show ?case by (simp add: columnFields_def inColumnSet_def)
next
  case (Cons f flds)
  show ?case
  proof (cases "persistable (StructField f)")
    case True
    then have "columnsLoop env (f # flds) (cols, ex) =
        columnsLoop env flds (cols @ [Quote env (DBName (StructField f))], ex(Name (StructField f) := True))"
      by (simp add: persistable_def)
    also have "\<dots> = (cols @ map (\<lambda>sf. Quote env (DBName sf)) (columnFields (map StructField (f # flds))),
      (\<lambda>n. ex n \<or> inColumnSet (map StructField (f # flds)) n))"
      unfolding Cons.IH using True by (auto simp: columnFields_def inColumnSet_def fun_eq_iff)
    finally show ?thesis .
  next
    case False
    then have "columnsLoop env (f # flds) (cols, ex) = columnsLoop env flds (cols, ex)"
      by (auto simp: persistable_def)
    with False show ?thesis unfolding Cons.IH by (simp add: columnFields_def inColumnSet_def)
  qed
qed

lemma columnsLoop_start:
  "map StructField flds = sfs \<Longrightarrow>
   columnsLoop env flds ([], \<lambda>name. False) =
     (map (\<lambda>sf. Quote env (DBName sf)) (columnFields sfs), inColumnSet sfs)"
  by (simp add: columnsLoop_eq)

lemma stampElements_all:
  assumes "IndirectValue s = VSlice ys" "length ys = len" "k \<le> len"
    "\<forall>j. k \<le> j \<and> j < len \<longrightarrow> isRecord (StructFields s) (ys ! j)"
    "pathsIndependent (map Names (StructFields s))"
  shows "\<exists>ys'. stampElements (VTime t) k len s = Inr (s\<lparr>IndirectValue := VSlice ys'\<rparr>) \<and>
           length ys' = len \<and> (\<forall>j<k. ys' ! j = ys ! j) \<and>
           (\<forall>j. k \<le> j \<and> j < len \<longrightarrow>
              (\<forall>sf\<in>set (StructFields s).
                 peek (Indirect (ys' ! j)) (Names sf) = stamped (VTime t) (Indirect (ys ! j)) sf))"
  using assms
proof (induction "len - k" arbitrary: k s ys)
  case 0
  then have "k = len" by simp
  with 0 show ?case
    by (subst stampElements.simps) (auto intro!: exI[of _ ys] simp: Scope_target_id)
next
  case (Suc n)
  from Suc.hyps(2) have kl: "k < len" by simp
  with Suc.prems have ky: "k < length ys" and rec: "isRecord (StructFields s) (ys ! k)" by auto
  from stamp_step[OF Suc.prems(1) ky rec Suc.prems(5), of t] obtain flds s1 e' where
    st: "FiledsWithIndexForBatch s (int k) = Inr (flds, s1)"
        "stampFields (VTime t) flds s1 = s\<lparr>IndirectValue := VSlice (ys[k := e'])\<rparr>"
        "\<forall>sf\<in>set (StructFields s). peek (Indirect e') (Names sf) = stamped (VTime t) (Indirect (ys ! k)) sf"
    by blast
  let ?s2 = "s\<lparr>IndirectValue := VSlice (ys[k := e'])\<rparr>"
  have n: "n = len - Suc k" using Suc.hyps(2) by simp
  have P1: "IndirectValue ?s2 = VSlice (ys[k := e'])" by simp
  have P2: "length (ys[k := e']) = len" using Suc.prems(2) by simp
  have P3: "Suc k \<le> len" using kl by simp
  have P4: "\<forall>j. Suc k \<le> j \<and> j < len \<longrightarrow> isRecord (StructFields ?s2) ((ys[k := e']) ! j)"
    using Suc.prems(4) by auto
  have P5: "pathsIndependent (map Names (StructFields ?s2))" using Suc.prems(5) by simp
  from Suc.hyps(1)[OF n P1 P2 P3 P4 P5] obtain ys' where
    ih: "stampElements (VTime t) (Suc k) len ?s2 = Inr (?s2\<lparr>IndirectValue := VSlice ys'\<rparr>)"
        "length ys' = len" "\<forall>j<Suc k. ys' ! j = (ys[k := e']) ! j"
        "\<forall>j. Suc k \<le> j \<and> j < len \<longrightarrow>
              (\<forall>sf\<in>set (StructFields ?s2).
                 peek (Indirect (ys' ! j)) (Names sf) = stamped (VTime t) (Indirect ((ys[k := e']) ! j)) sf)"
    by blast
  have run: "stampElements (VTime t) k len s = Inr (s\<lparr>IndirectValue := VSlice ys'\<rparr>)"
    by (subst stampElements.simps) (simp add: kl st ih(1))
  have a1: "\<forall>j<k. ys' ! j = ys ! j" using ih(3) by auto
  have yk: "ys' ! k = e'" using ih(3) ky by auto
  have a2: "\<forall>j. k \<le> j \<and> j < len \<longrightarrow>
              (\<forall>sf\<in>set (StructFields s).
                 peek (Indirect (ys' ! j)) (Names sf) = stamped (VTime t) (Indirect (ys ! j)) sf)"
  proof (intro allI impI)
    fix j assume j: "k \<le> j \<and> j < len"
    show "\<forall>sf\<in>set (StructFields s).
            peek (Indirect (ys' ! j)) (Names sf) = stamped (VTime t) (Indirect (ys ! j)) sf"
    proof (cases "j = k")
      case True
      with yk st(3) show ?thesis by simp
    next
      case False
      with j have "Suc k \<le> j \<and> j < len" by simp
      with ih(4) False show ?thesis by simp
    qed
  qed
  from run ih(2) a1 a2 show ?case by blast
qed

lemma rowsLoop_values:
  assumes "IndirectValue s = VSlice ys" "length ys = len" "k \<le> len"
    "\<forall>j. k \<le> j \<and> j < len \<longrightarrow> isRecord (StructFields s) (ys ! j)"
    "pathsIndependent (map Names (StructFields s))"
    "length phs0 = len"
  shows "\<exists>phs ys'. rowsLoop env ex k len phs0 s =
            Inr (phs, s\<lparr>IndirectValue := VSlice ys',
                   SQLVars := SQLVars s @ concat (map (\<lambda>e. map (rowValue (Indirect e))
                                (filter (\<lambda>sf. ex (Name sf)) (StructFields s))) (drop k ys))\<rparr>) \<and>
           length ys' = len \<and> (\<forall>j<k. ys' ! j = ys ! j) \<and>
           (\<forall>j. k \<le> j \<and> j < len \<longrightarrow>
              (\<forall>sf\<in>set (StructFields s).
                 peek (Indirect (ys' ! j)) (Names sf) = writtenBack ex (Indirect (ys ! j)) sf)) \<and>
           length phs = len \<and> (\<forall>j<k. phs ! j = phs0 ! j) \<and>
           (\<forall>j. k \<le> j \<and> j < len \<longrightarrow>
               length (phs ! j) = length (filter (\<lambda>sf. ex (Name sf)) (StructFields s)))"
  using assms
proof (induction "len - k" arbitrary: k s ys phs0)
  case 0
  then have "k = len" by simp
  with 0 show ?case
    by (subst rowsLoop.simps) (auto intro!: exI[of _ ys] simp: Scope_target_id)
next
  case (Suc n)
  let ?F = "filter (\<lambda>sf. ex (Name sf)) (StructFields s)"
  from Suc.hyps(2) have kl: "k < len" by simp
  with Suc.prems have ky: "k < length ys" and rec: "isRecord (StructFields s) (ys ! k)" by auto
  from row_step[OF Suc.prems(1) ky rec Suc.prems(5), of env ex] obtain flds s1 vps e' where
    st: "FiledsWithIndexForBatch s (int k) = Inr (flds, s1)"
        "rowFieldsLoop env ex flds [] s1 =
             Inr (vps, s\<lparr>IndirectValue := VSlice (ys[k := e']),
                        SQLVars := SQLVars s @ map (rowValue (Indirect (ys ! k))) ?F\<rparr>)"
        "length vps = length ?F"
        "\<forall>sf\<in>set (StructFields s). peek (Indirect e') (Names sf) = writtenBack ex (Indirect (ys ! k)) sf"
    by blast
  let ?s2 = "s\<lparr>IndirectValue := VSlice (ys[k := e']),
                SQLVars := SQLVars s @ map (rowValue (Indirect (ys ! k))) ?F\<rparr>"
  have n: "n = len - Suc k" using Suc.hyps(2) by simp
  have P1: "IndirectValue ?s2 = VSlice (ys[k := e'])" by simp
  have P2: "length (ys[k := e']) = len" using Suc.prems(2) by simp
  have P3: "Suc k \<le> len" using kl by simp
  have P4: "\<forall>j. Suc k \<le> j \<and> j < len \<longrightarrow> isRecord (StructFields ?s2) ((ys[k := e']) ! j)"
    using Suc.prems(4) by auto
  have P5: "pathsIndependent (map Names (StructFields ?s2))" using Suc.prems(5) by simp
  have P6: "length (phs0[k := vps]) = len" using Suc.prems(6) by simp
  from Suc.hyps(1)[OF n P1 P2 P3 P4 P5 P6] obtain phs ys' where
    ih: "rowsLoop env ex (Suc k) len (phs0[k := vps]) ?s2 =
            Inr (phs, ?s2\<lparr>IndirectValue := VSlice ys',
                   SQLVars := SQLVars ?s2 @ concat (map (\<lambda>e. map (rowValue (Indirect e))
                                (filter (\<lambda>sf. ex (Name sf)) (StructFields ?s2))) (drop (Suc k) (ys[k := e'])))\<rparr>)"
        "length ys' = len" "\<forall>j<Suc k. ys' ! j = (ys[k := e']) ! j"
        "\<forall>j. Suc k \<le> j \<and> j < len \<longrightarrow>
              (\<forall>sf\<in>set (StructFields ?s2).
                 peek (Indirect (ys' ! j)) (Names sf) = writtenBack ex (Indirect ((ys[k := e']) ! j)) sf)"
        "length phs = len" "\<forall>j<Suc k. phs ! j = (phs0[k := vps]) ! j"
        "\<forall>j. Suc k \<le> j \<and> j < len \<longrightarrow>
               length (phs ! j) = length (filter (\<lambda>sf. ex (Name sf)) (StructFields ?s2))"
    by blast
  have dr: "drop k ys = ys ! k # drop (Suc k) ys" using ky by (simp add: Cons_nth_drop_Suc)
  have fin: "?s2\<lparr>IndirectValue := VSlice ys',
                   SQLVars := SQLVars ?s2 @ concat (map (\<lambda>e. map (rowValue (Indirect e))
                                (filter (\<lambda>sf. ex (Name sf)) (StructFields ?s2))) (drop (Suc k) (ys[k := e'])))\<rparr>
      = s\<lparr>IndirectValue := VSlice ys',
                   SQLVars := SQLVars s @ concat (map (\<lambda>e. map (rowValue (Indirect e)) ?F) (drop k ys))\<rparr>"
    unfolding dr by simp
  have run: "rowsLoop env ex k len phs0 s =
            Inr (phs, s\<lparr>IndirectValue := VSlice ys',
                   SQLVars := SQLVars s @ concat (map (\<lambda>e. map (rowValue (Indirect e)) ?F) (drop k ys))\<rparr>)"
    by (subst rowsLoop.simps) (simp only: kl st ih(1) fin if_True sum.case prod.case)
  have a1: "\<forall>j<k. ys' ! j = ys ! j" using ih(3) by auto
  have yk: "ys' ! k = e'" using ih(3) ky by auto
  have a2: "\<forall>j. k \<le> j \<and> j < len \<longrightarrow>
              (\<forall>sf\<in>set (StructFields s).
                 peek (Indirect (ys' ! j)) (Names sf) = writtenBack ex (Indirect (ys ! j)) sf)"
  proof (intro allI impI)
    fix j assume j: "k \<le> j \<and> j < len"
    show "\<forall>sf\<in>set (StructFields s).
            peek (Indirect (ys' ! j)) (Names sf) = writtenBack ex (Indirect (ys ! j)) sf"
    proof (cases "j = k")
      case True
      with yk st(4) show ?thesis by simp
    next
      case False
      with j have "Suc k \<le> j \<and> j < len" by simp
      with ih(4) False show ?thesis by simp
    qed
  qed
  have b1: "\<forall>j<k. phs ! j = phs0 ! j" using ih(6) by auto
  have pk: "phs ! k = vps" using ih(6) Suc.prems(6) kl by auto
  have b2: "\<forall>j. k \<le> j \<and> j < len \<longrightarrow> length (phs ! j) = length ?F"
  proof (intro allI impI)
    fix j assume j: "k \<le> j \<and> j < len"
    show "length (phs ! j) = length ?F"
    proof (cases "j = k")
      case True
      with pk st(3) show ?thesis by simp
    next
      case False
      with j have "Suc k \<le> j \<and> j < len" by simp
      with ih(7) show ?thesis by simp
    qed
  qed
  from run ih(2) a1 a2 ih(5) b1 b2 show ?case by blast
qed

section \<open>The batch-insert stage as a whole\<close>

lemma boundFields_exclusive:
  "columnNamesExclusive sfs \<Longrightarrow> boundFields sfs = columnFields sfs"
  unfolding boundFields_def columnFields_def columnNamesExclusive_def
  by (rule filter_cong) (auto simp: list_all_iff inColumnSet_def columnFields_def)

lemma map_StructField_mkField: "map StructField (map (mkField i e) sfs) = sfs"
  by (induction sfs) (simp_all add: mkField_def)

lemma concat_nth_uniform:
  "\<forall>r\<in>set rows. length r = m \<Longrightarrow> i < length rows \<Longrightarrow> j < m \<Longrightarrow>
   concat rows ! (i * m + j) = rows ! i ! j"
proof (induction rows arbitrary: i)
  case Nil
  then show ?case by simp
next
  case (Cons r rows)
  show ?case
  proof (cases i)
    case 0
    with Cons.prems show ?thesis by (simp add: nth_append)
  next
    case (Suc i')
    with Cons.prems have "concat rows ! (i' * m + j) = rows ! i' ! j"
      by (intro Cons.IH) auto
    moreover have "length r = m" using Cons.prems by simp
    ultimately show ?thesis using Suc by (simp add: nth_append add.assoc)
  qed
qed

lemma batchCreateCallback_unfold:
  assumes "Error scope = None" "IndirectValue scope = VSlice xs" "xs \<noteq> []"
    "FiledsWithIndexForBatch (scope\<lparr>Ticks := Suc (Ticks scope)\<rparr>) 0 = Inr (flds, scope1)"
    "map StructField flds = StructFields scope"
    "columnFields (StructFields scope) \<noteq> []"
    "rowsLoop env (inColumnSet (StructFields scope)) 0 (length xs) (replicate (length xs) []) scope1
       = Inr (placeholders, scope2)"
  shows "batchCreateCallback env scope =
     Inr (execStatement env (Raw scope2
            (insertSQL (QuotedTableName env) (quotedColumns env (StructFields scope)) placeholders
               (optionText env scope2))))"
  using assms
  by (simp add: batchCreateCallback_def HasError_def Let_def columnsLoop_start quotedColumns_def
        optionText_def)

lemma batch_count:
  assumes "Error scope = None" "IndirectValue scope = VSlice xs" "xs \<noteq> []"
    "homogeneous (StructFields scope) xs" "columnFields (StructFields scope) \<noteq> []"
  shows "\<exists>placeholders scope2. batchCreateCallback env scope =
       Inr (execStatement env (Raw scope2
            (insertSQL (QuotedTableName env) (quotedColumns env (StructFields scope)) placeholders
               (optionText env scope)))) \<and>
       length placeholders = length xs \<and>
       (\<forall>p\<in>set placeholders. length p = length (boundFields (StructFields scope))) \<and>
       length (SQLVars scope2) =
         length (SQLVars scope) + length xs * length (boundFields (StructFields scope)) \<and>
       Executed scope2 = Executed scope \<and> Error scope2 = None"
proof -
  let ?sfs = "StructFields scope"
  let ?s0 = "scope\<lparr>Ticks := Suc (Ticks scope)\<rparr>"
  have rec: "\<forall>j<length xs. isRecord ?sfs (xs ! j)"
    using assms(4) by (simp add: homogeneous_def list_all_length)
  have 1: "IndirectValue ?s0 = VSlice xs" using assms(2) by simp
  have 2: "0 < length xs" using assms(3) by simp
  have 3: "isRecord (StructFields ?s0) (xs ! 0)" using rec 2 by simp
  from FiledsWithIndexForBatch_record[OF 1 2 3] obtain flds scope1 e where
    f: "FiledsWithIndexForBatch ?s0 0 = Inr (flds, scope1)"
       "map StructField flds = ?sfs"
       "touchesOnly 0 ?s0 scope1" "SQLVars scope1 = SQLVars ?s0"
       "IndirectValue scope1 = VSlice (xs[0 := e])" "isRecord ?sfs e"
    by auto
  have sf1: "StructFields scope1 = ?sfs" using touchesOnlyD(3)[OF f(3) 1] by simp
  have R1: "length (xs[0 := e]) = length xs" by simp
  have R3: "\<forall>j. 0 \<le> j \<and> j < length xs \<longrightarrow> isRecord (StructFields scope1) ((xs[0 := e]) ! j)"
    unfolding sf1 using rec f(6) 2 by (auto simp: nth_list_update)
  from rowsLoop_count[OF f(5) R1 _ R3, of "replicate (length xs) []" env "inColumnSet ?sfs"]
  obtain phs scope2 ys' where
    r: "rowsLoop env (inColumnSet ?sfs) 0 (length xs) (replicate (length xs) []) scope1 = Inr (phs, scope2)"
       "length phs = length xs"
       "\<forall>j. 0 \<le> j \<and> j < length xs \<longrightarrow>
               length (phs ! j) = length (filter (\<lambda>sf. inColumnSet ?sfs (Name sf)) (StructFields scope1))"
       "length (SQLVars scope2) = length (SQLVars scope1)
              + (length xs - 0) * length (filter (\<lambda>sf. inColumnSet ?sfs (Name sf)) (StructFields scope1))"
       "scope2 = scope1\<lparr>IndirectValue := VSlice ys', SQLVars := SQLVars scope2\<rparr>"
    by auto
  have e2: "Executed scope2 = Executed scope" "Error scope2 = None" "Settings scope2 = Settings scope"
  proof -
    have "Executed scope1 = Executed ?s0" "Error scope1 = Error ?s0" "Settings scope1 = Settings ?s0"
      using touchesOnlyD[OF f(3) 1] by simp_all
    moreover have "Executed scope2 = Executed scope1" "Error scope2 = Error scope1"
       "Settings scope2 = Settings scope1"
      by (subst r(5), simp)+
    ultimately show "Executed scope2 = Executed scope" "Error scope2 = None"
       "Settings scope2 = Settings scope"
      using assms(1) by simp_all
  qed
  have ot: "optionText env scope2 = optionText env scope" using e2(3) by (simp add: optionText_def)
  have len: "\<forall>p\<in>set phs. length p = length (boundFields ?sfs)"
    using r(2,3) unfolding sf1 boundFields_def by (auto simp: in_set_conv_nth)
  have vars: "length (SQLVars scope2) = length (SQLVars scope) + length xs * length (boundFields ?sfs)"
    using r(4) f(4) unfolding sf1 boundFields_def by simp
  from batchCreateCallback_unfold[OF assms(1,2,3) f(1,2) assms(5) r(1)] ot r(2) len vars e2(1,2)
  show ?thesis by auto
qed

lemma batch_values:
  assumes "Error scope = None" "IndirectValue scope = VSlice xs" "xs \<noteq> []"
    "homogeneous (StructFields scope) xs" "columnFields (StructFields scope) \<noteq> []"
    "pathsIndependent (map Names (StructFields scope))"
  shows "\<exists>placeholders xs'. batchCreateCallback env scope =
       Inr (execStatement env (Raw
            (scope\<lparr>Ticks := Suc (Ticks scope), IndirectValue := VSlice xs',
               SQLVars := SQLVars scope @ concat (map (\<lambda>e. map (rowValue (Indirect e))
                             (boundFields (StructFields scope))) xs)\<rparr>)
            (insertSQL (QuotedTableName env) (quotedColumns env (StructFields scope)) placeholders
               (optionText env scope)))) \<and>
       length placeholders = length xs \<and>
       (\<forall>p\<in>set placeholders. length p = length (boundFields (StructFields scope))) \<and>
       length xs' = length xs \<and>
       (\<forall>i<length xs. \<forall>sf\<in>set (StructFields scope).
           peek (Indirect (xs' ! i)) (Names sf)
             = writtenBack (inColumnSet (StructFields scope)) (Indirect (xs ! i)) sf)"
proof -
  let ?sfs = "StructFields scope"
  let ?ex = "inColumnSet ?sfs"
  let ?F = "filter (\<lambda>sf. ?ex (Name sf)) ?sfs"
  let ?s0 = "scope\<lparr>Ticks := Suc (Ticks scope)\<rparr>"
  have rec: "\<forall>j<length xs. isRecord ?sfs (xs ! j)"
    using assms(4) by (simp add: homogeneous_def list_all_length)
  have 1: "IndirectValue ?s0 = VSlice xs" using assms(2) by simp
  have 2: "0 < length xs" using assms(3) by simp
  have 3: "isRecord (StructFields ?s0) (xs ! 0)" using rec 2 by simp
  have 4: "pathsIndependent (map Names (StructFields ?s0))" using assms(6) by simp
  from FiledsWithIndexForBatch_values[OF 1 2 3 4] obtain e1 where
    f: "FiledsWithIndexForBatch ?s0 (int 0) =
            Inr (map (mkField 0 (Indirect (xs ! 0))) ?sfs,
                 ?s0\<lparr>IndirectValue := VSlice (xs[0 := setIndirect (xs ! 0) e1])\<rparr>)"
       "Kind e1 = KStruct"
       "\<forall>sf\<in>set ?sfs. lookup e1 (Names sf) = lookup (Indirect (xs ! 0)) (Names sf)"
    by auto
  let ?entry = "setIndirect (xs ! 0) e1"
  let ?ys = "xs[0 := ?entry]"
  let ?s1 = "?s0\<lparr>IndirectValue := VSlice ?ys\<rparr>"
  have ie: "Indirect ?entry = e1" using f(2) by (simp add: Indirect_setIndirect_notPtr)
  have same: "\<forall>j<length xs. \<forall>sf\<in>set ?sfs.
      lookup (Indirect (?ys ! j)) (Names sf) = lookup (Indirect (xs ! j)) (Names sf)"
    using f(3) ie 2 by (auto simp: nth_list_update)
  have rec1: "\<forall>j. 0 \<le> j \<and> j < length xs \<longrightarrow> isRecord (StructFields ?s1) (?ys ! j)"
  proof (intro allI impI)
    fix j assume j: "0 \<le> j \<and> j < length xs"
    show "isRecord (StructFields ?s1) (?ys ! j)"
    proof (cases "j = 0")
      case True
      have "\<forall>sf\<in>set ?sfs. lookup (Indirect (xs ! 0)) (Names sf) \<noteq> VNil"
        using rec 2 by (auto simp: isRecord_def list_all_iff)
      with True j ie f(2,3) show ?thesis by (simp add: isRecord_def list_all_iff)
    next
      case False
      with j rec show ?thesis by simp
    qed
  qed
  have R1: "IndirectValue ?s1 = VSlice ?ys" by simp
  have R2: "length ?ys = length xs" by simp
  have R5: "pathsIndependent (map Names (StructFields ?s1))" using assms(6) by simp
  from rowsLoop_values[OF R1 R2 _ rec1 R5, of "replicate (length xs) []" env ?ex]
  obtain phs ys' where
    r: "rowsLoop env ?ex 0 (length xs) (replicate (length xs) []) ?s1 =
            Inr (phs, ?s1\<lparr>IndirectValue := VSlice ys',
                   SQLVars := SQLVars ?s1 @ concat (map (\<lambda>e. map (rowValue (Indirect e))
                                (filter (\<lambda>sf. ?ex (Name sf)) (StructFields ?s1))) (drop 0 ?ys))\<rparr>)"
       "length ys' = length xs"
       "\<forall>j. 0 \<le> j \<and> j < length xs \<longrightarrow>
              (\<forall>sf\<in>set (StructFields ?s1).
                 peek (Indirect (ys' ! j)) (Names sf) = writtenBack ?ex (Indirect (?ys ! j)) sf)"
       "length phs = length xs"
       "\<forall>j. 0 \<le> j \<and> j < length xs \<longrightarrow>
               length (phs ! j) = length (filter (\<lambda>sf. ?ex (Name sf)) (StructFields ?s1))"
    by auto
  have rows: "map (\<lambda>e. map (rowValue (Indirect e)) ?F) ?ys = map (\<lambda>e. map (rowValue (Indirect e)) ?F) xs"
  proof (rule nth_equalityI)
    show "length (map (\<lambda>e. map (rowValue (Indirect e)) ?F) ?ys)
        = length (map (\<lambda>e. map (rowValue (Indirect e)) ?F) xs)" by simp
  next
    fix j assume "j < length (map (\<lambda>e. map (rowValue (Indirect e)) ?F) ?ys)"
    then have j: "j < length xs" by simp
    have "map (rowValue (Indirect (?ys ! j))) ?F = map (rowValue (Indirect (xs ! j))) ?F"
      using same j by (intro map_cong refl rowValue_cong) auto
    with j show "map (\<lambda>e. map (rowValue (Indirect e)) ?F) ?ys ! j
        = map (\<lambda>e. map (rowValue (Indirect e)) ?F) xs ! j" by simp
  qed
  let ?s2 = "scope\<lparr>Ticks := Suc (Ticks scope), IndirectValue := VSlice ys',
               SQLVars := SQLVars scope @ concat (map (\<lambda>e. map (rowValue (Indirect e))
                             (boundFields ?sfs)) xs)\<rparr>"
  have fin: "?s1\<lparr>IndirectValue := VSlice ys',
                   SQLVars := SQLVars ?s1 @ concat (map (\<lambda>e. map (rowValue (Indirect e))
                                (filter (\<lambda>sf. ?ex (Name sf)) (StructFields ?s1))) (drop 0 ?ys))\<rparr> = ?s2"
    using rows by (simp add: boundFields_def)
  have run: "rowsLoop env ?ex 0 (length xs) (replicate (length xs) []) ?s1 = Inr (phs, ?s2)"
    using r(1) unfolding fin .
  have f0: "FiledsWithIndexForBatch ?s0 0 = Inr (map (mkField 0 (Indirect (xs ! 0))) ?sfs, ?s1)"
    using f(1) by simp
  have ot: "optionText env ?s2 = optionText env scope" by (simp add: optionText_def)
  have len: "\<forall>p\<in>set phs. length p = length (boundFields ?sfs)"
    using r(4,5) unfolding boundFields_def by (auto simp: in_set_conv_nth)
  have wb: "\<forall>i<length xs. \<forall>sf\<in>set ?sfs.
           peek (Indirect (ys' ! i)) (Names sf) = writtenBack ?ex (Indirect (xs ! i)) sf"
  proof (intro allI impI ballI)
    fix i sf assume i: "i < length xs" and sf: "sf \<in> set ?sfs"
    have "peek (Indirect (ys' ! i)) (Names sf) = writtenBack ?ex (Indirect (?ys ! i)) sf"
      using r(3) i sf by simp
    also have "\<dots> = writtenBack ?ex (Indirect (xs ! i)) sf"
      using same i sf by (intro writtenBack_cong) simp
    finally show "peek (Indirect (ys' ! i)) (Names sf) = writtenBack ?ex (Indirect (xs ! i)) sf" .
  qed
  from batchCreateCallback_unfold[OF assms(1,2,3) f0 map_StructField_mkField assms(5) run]
    ot r(2,4) len wb
  show ?thesis by auto
qed

section \<open>Evaluating the stages on concrete inputs\<close>

lemmas demo_defs = mkScope_def demoEnv_def mkStructField_def

lemmas run_defs = batchCreateCallback_def updateTimeStampForBatchCreateCallback_def
  beforeBatchCreateCallback_def HasError_def Err_def Interface_def FiledsWithIndexForBatch_def
  rowsLoop.simps stampElements.simps boundValue_def FieldInterface_def FieldSet_def elementAt_def
  AddToVars_def Raw_def execStatement_def insertSQL_def addExtraSpaceIfExist_def tagDefault_def
  walkNames_Cons Let_def

section \<open>The field extractor: results\<close>

text \<open>
  C10. For a scope whose indirect value is not a slice, and for a slice at every index
  greater than or equal to its length, \<^verbatim>\<open>FiledsWithIndexForBatch\<close> returns no field
  descriptors, and the scope (error slot and elements included) is left as it was.
\<close>

theorem FiledsWithIndexForBatch_nil:
  "Kind (IndirectValue scope) \<noteq> KSlice \<or>
     (\<exists>xs. IndirectValue scope = VSlice xs \<and> int (length xs) \<le> index)
   \<Longrightarrow> FiledsWithIndexForBatch scope index = Inr ([], scope)"
  by (cases "IndirectValue scope") (auto simp: FiledsWithIndexForBatch_def)

theorem FiledsWithIndexForBatch_nil_witness:
  "(\<exists>xs. IndirectValue (mkScope (VSlice userBatch) userSchema) = VSlice xs \<and> int (length xs) \<le> 3)
   \<and> FiledsWithIndexForBatch (mkScope (VSlice userBatch) userSchema) 3
       = Inr ([], mkScope (VSlice userBatch) userSchema)
   \<and> Kind (IndirectValue (mkScope (VInt 4) userSchema)) \<noteq> KSlice
   \<and> FiledsWithIndexForBatch (mkScope (VInt 4) userSchema) 0 = Inr ([], mkScope (VInt 4) userSchema)"
proof -
  have a: "\<exists>xs. IndirectValue (mkScope (VSlice userBatch) userSchema) = VSlice xs \<and> int (length xs) \<le> 3"
    by (simp add: mkScope_def userBatch_def)
  have b: "Kind (IndirectValue (mkScope (VInt 4) userSchema)) \<noteq> KSlice"
    by (simp add: mkScope_def)
  show ?thesis
    using a b FiledsWithIndexForBatch_nil [OF disjI2 [OF a]]
      FiledsWithIndexForBatch_nil [OF disjI1 [OF b], of 0]
    by simp
qed


section \<open>What every run leaves untouched\<close>



lemma sameContextD:
  assumes "sameContext s s'"
  shows "StructFields s' = StructFields s" "Error s' = Error s" "SQL s' = SQL s"
    "Settings s' = Settings s" "Ticks s' = Ticks s" "Executed s' = Executed s"
    "RowsAffected s' = RowsAffected s"
  by (subst assms[unfolded sameContext_def], simp)+

lemma structFieldsLoop_StructField:
  "structFieldsLoop i sfs elem = Inr (flds, elem') \<Longrightarrow> map StructField flds = sfs"
  by (induction sfs arbitrary: elem flds elem') (auto split: sum.splits prod.splits)

lemma FiledsWithIndexForBatch_frame:
  assumes "FiledsWithIndexForBatch s i = Inr (flds, s')"
  shows "sameContext s s'" "SQLVars s' = SQLVars s"
proof -
  have "s' = s\<lparr>IndirectValue := IndirectValue s'\<rparr>"
    using assms
    by (cases "IndirectValue s")
      (auto simp: FiledsWithIndexForBatch_def Let_def Scope_target_id
            split: if_splits sum.splits prod.splits)
  then have e: "s' = s\<lparr>IndirectValue := IndirectValue s', SQLVars := SQLVars s\<rparr>"
    by (metis Scope.update_convs(5) Scope.surjective Scope.update_convs(1))
  show "SQLVars s' = SQLVars s" by (subst e) simp
  with e show "sameContext s s'" by (simp add: sameContext_def)
qed

lemma FiledsWithIndexForBatch_StructFields:
  assumes "FiledsWithIndexForBatch s i = Inr (flds, s')" "IndirectValue s = VSlice xs"
    "0 \<le> i" "i < int (length xs)"
  shows "map StructField flds = StructFields s"
  using assms
  by (auto simp: FiledsWithIndexForBatch_def Let_def comp_def structFieldsLoop_StructField
        split: if_splits sum.splits prod.splits)

lemma FiledsWithIndexForBatch_Ticks:
  "FiledsWithIndexForBatch (s\<lparr>Ticks := t\<rparr>) i =
     (case FiledsWithIndexForBatch s i of
        Inl p \<Rightarrow> Inl p
      | Inr (flds, s') \<Rightarrow> Inr (flds, s'\<lparr>Ticks := t\<rparr>))"
  by (cases "IndirectValue s")
    (auto simp: FiledsWithIndexForBatch_def Let_def split: sum.splits prod.splits)






lemma execStatement_fields:
  "SQL (execStatement env s) = SQL s" "SQLVars (execStatement env s) = SQLVars s"
  "IndirectValue (execStatement env s) = IndirectValue s"
  "Executed (execStatement env s) = Executed s @ [(SQL s, SQLVars s)]"
  "Settings (execStatement env s) = Settings s" "Ticks (execStatement env s) = Ticks s"
  by (simp_all add: execStatement_def Err_def Let_def split: sum.splits)



section \<open>Error handling of the stages\<close>

text \<open>
  C7. Every stage (pre-batch, timestamp, batch-insert) first checks whether the context
  already carries an error; if it does, the stage does nothing at all: the context it
  returns is the one it was given, so no element is mutated, no statement is built or
  executed, and the error recorded first stays.
\<close>

theorem stages_skip_on_error:
  assumes "Error scope \<noteq> None"
  shows "beforeBatchCreateCallback env scope = Inr scope
       \<and> updateTimeStampForBatchCreateCallback env scope = Inr scope
       \<and> batchCreateCallback env scope = Inr scope"
  using assms
  by (simp add: beforeBatchCreateCallback_def updateTimeStampForBatchCreateCallback_def
        batchCreateCallback_def HasError_def)

theorem stages_skip_on_error_witness:
  "Error ((mkScope (VSlice userBatch) userSchema)\<lparr>Error := Some (ExecError ''boom'')\<rparr>) \<noteq> None
   \<and> beforeBatchCreateCallback demoEnv
        ((mkScope (VSlice userBatch) userSchema)\<lparr>Error := Some (ExecError ''boom'')\<rparr>)
      = Inr ((mkScope (VSlice userBatch) userSchema)\<lparr>Error := Some (ExecError ''boom'')\<rparr>)
   \<and> updateTimeStampForBatchCreateCallback demoEnv
        ((mkScope (VSlice userBatch) userSchema)\<lparr>Error := Some (ExecError ''boom'')\<rparr>)
      = Inr ((mkScope (VSlice userBatch) userSchema)\<lparr>Error := Some (ExecError ''boom'')\<rparr>)
   \<and> batchCreateCallback demoEnv
        ((mkScope (VSlice userBatch) userSchema)\<lparr>Error := Some (ExecError ''boom'')\<rparr>)
      = Inr ((mkScope (VSlice userBatch) userSchema)\<lparr>Error := Some (ExecError ''boom'')\<rparr>)"
proof -
  have h: "Error ((mkScope (VSlice userBatch) userSchema)\<lparr>Error := Some (ExecError ''boom'')\<rparr>) \<noteq> None"
    by simp
  show ?thesis using h stages_skip_on_error [OF h, of demoEnv] by simp
qed

text \<open>
  When the target is a value that is not a slice, each of the three stages records the
  input-shape error (naming the stage, and carrying the value given) and returns without
  doing anything else; the timestamp and batch-insert stages have read the clock once
  before.
\<close>

lemma stages_reject_non_slice:
  assumes "Error scope = None" "Kind (IndirectValue scope) \<noteq> KSlice" "IndirectValue scope \<noteq> VNil"
  shows "beforeBatchCreateCallback env scope =
           Inr (scope\<lparr>Error := Some (NonSliceValue ''beforeBatchCreateCallback'' (IndirectValue scope))\<rparr>)
       \<and> updateTimeStampForBatchCreateCallback env scope =
           Inr (scope\<lparr>Ticks := Suc (Ticks scope),
                 Error := Some (NonSliceValue ''updateTimeStampForBatchCreateCallback'' (IndirectValue scope))\<rparr>)
       \<and> batchCreateCallback env scope =
           Inr (scope\<lparr>Ticks := Suc (Ticks scope),
                 Error := Some (NonSliceValue ''batchCreateCallback'' (IndirectValue scope))\<rparr>)"
  using assms
  by (simp add: beforeBatchCreateCallback_def updateTimeStampForBatchCreateCallback_def
        batchCreateCallback_def HasError_def Err_def Interface_def Let_def)

lemma stages_reject_non_slice_example:
  "Error (mkScope (VInt 4) userSchema) = None
   \<and> Kind (IndirectValue (mkScope (VInt 4) userSchema)) \<noteq> KSlice
   \<and> IndirectValue (mkScope (VInt 4) userSchema) \<noteq> VNil
   \<and> Error (case beforeBatchCreateCallback demoEnv (mkScope (VInt 4) userSchema) of
              Inr s \<Rightarrow> s | Inl p \<Rightarrow> mkScope VNil [])
       = Some (NonSliceValue ''beforeBatchCreateCallback'' (VInt 4))
   \<and> Error (case updateTimeStampForBatchCreateCallback demoEnv (mkScope (VInt 4) userSchema) of
              Inr s \<Rightarrow> s | Inl p \<Rightarrow> mkScope VNil [])
       = Some (NonSliceValue ''updateTimeStampForBatchCreateCallback'' (VInt 4))
   \<and> Error (case batchCreateCallback demoEnv (mkScope (VInt 4) userSchema) of
              Inr s \<Rightarrow> s | Inl p \<Rightarrow> mkScope VNil [])
       = Some (NonSliceValue ''batchCreateCallback'' (VInt 4))"
proof -
  have h: "Error (mkScope (VInt 4) userSchema) = None"
    "Kind (IndirectValue (mkScope (VInt 4) userSchema)) \<noteq> KSlice"
    "IndirectValue (mkScope (VInt 4) userSchema) \<noteq> VNil"
    by (simp_all add: mkScope_def)
  show ?thesis
    using h stages_reject_non_slice [OF h, of demoEnv] by (simp add: mkScope_def)
qed

text \<open>
  C8. When the target value is not a slice, each of the three stages is to record the
  input-shape error on the context and return. The stages do so for every value that is
  not a slice, as shown above, but not for the nil target: its \<^verbatim>\<open>reflect.Value\<close> is the
  zero Value, whose Kind is not Slice, so each stage enters the branch that records the
  error, and the call of \<^verbatim>\<open>Interface()\<close> that builds the error message panics before
  anything is recorded.
\<close>

theorem stages_panic_on_nil_target:
  "Error (mkScope VNil userSchema) = None
   \<and> Kind (IndirectValue (mkScope VNil userSchema)) \<noteq> KSlice
   \<and> beforeBatchCreateCallback demoEnv (mkScope VNil userSchema) = Inl PanicInterfaceOfZeroValue
   \<and> updateTimeStampForBatchCreateCallback demoEnv (mkScope VNil userSchema)
       = Inl PanicInterfaceOfZeroValue
   \<and> batchCreateCallback demoEnv (mkScope VNil userSchema) = Inl PanicInterfaceOfZeroValue"
  by (simp add: mkScope_def beforeBatchCreateCallback_def updateTimeStampForBatchCreateCallback_def
        batchCreateCallback_def HasError_def Interface_def Let_def)

text \<open>
  C6. The batch-insert stage checks its preconditions in order. On a slice of length 0
  it records the empty-collection error. On a non-empty slice whose schema has no normal,
  non-ignored field it records the empty-column-set error, once the descriptors of the
  first element have been extracted. In both cases nothing else changes but the clock
  (and what the extraction allocated in the first element): no statement text is set, no
  value is bound and nothing is executed.
\<close>

theorem batchCreateCallback_preconditions:
  assumes "Error scope = None" "IndirectValue scope = VSlice xs"
  shows "(xs = [] \<longrightarrow>
            batchCreateCallback env scope =
              Inr (scope\<lparr>Ticks := Suc (Ticks scope), Error := Some (EmptySlice (VSlice []))\<rparr>))
       \<and> (xs \<noteq> [] \<and> columnFields (StructFields scope) = [] \<longrightarrow>
            (\<forall>flds scope1. FiledsWithIndexForBatch scope 0 = Inr (flds, scope1) \<longrightarrow>
               batchCreateCallback env scope =
                 Inr (scope1\<lparr>Ticks := Suc (Ticks scope),
                        Error := Some (EmptyColumns (IndirectValue scope1))\<rparr>)
               \<and> SQL scope1 = SQL scope \<and> SQLVars scope1 = SQLVars scope
               \<and> Executed scope1 = Executed scope \<and> RowsAffected scope1 = RowsAffected scope))"
proof (intro conjI impI allI)
  assume "xs = []"
  with assms show "batchCreateCallback env scope =
      Inr (scope\<lparr>Ticks := Suc (Ticks scope), Error := Some (EmptySlice (VSlice []))\<rparr>)"
    by (simp add: batchCreateCallback_def HasError_def Err_def Let_def)
next
  fix flds scope1
  assume a: "xs \<noteq> [] \<and> columnFields (StructFields scope) = []"
    and f: "FiledsWithIndexForBatch scope 0 = Inr (flds, scope1)"
  have sc: "sameContext scope scope1" and v: "SQLVars scope1 = SQLVars scope"
    using FiledsWithIndexForBatch_frame[OF f] by simp_all
  show "SQL scope1 = SQL scope" "SQLVars scope1 = SQLVars scope"
    "Executed scope1 = Executed scope" "RowsAffected scope1 = RowsAffected scope"
    using sameContextD[OF sc] v by simp_all
  have m: "map StructField flds = StructFields scope"
    using FiledsWithIndexForBatch_StructFields[OF f assms(2)] a by simp
  have t: "FiledsWithIndexForBatch (scope\<lparr>Ticks := Suc (Ticks scope)\<rparr>) 0
      = Inr (flds, scope1\<lparr>Ticks := Suc (Ticks scope)\<rparr>)"
    by (simp add: FiledsWithIndexForBatch_Ticks f)
  have e: "Error scope1 = None" using sameContextD(2)[OF sc] assms(1) by simp
  show "batchCreateCallback env scope =
      Inr (scope1\<lparr>Ticks := Suc (Ticks scope), Error := Some (EmptyColumns (IndirectValue scope1))\<rparr>)"
    using assms a t m e
    by (simp add: batchCreateCallback_def HasError_def Err_def Let_def columnsLoop_start)
qed


theorem batchCreateCallback_preconditions_witness:
  "batchCreateCallback demoEnv (mkScope (VSlice []) userSchema) =
     Inr ((mkScope (VSlice []) userSchema)\<lparr>Ticks := 1, Error := Some (EmptySlice (VSlice []))\<rparr>)
   \<and> batchCreateCallback demoEnv (mkScope (VSlice secretBatch) secretSchema) =
     Inr ((mkScope (VSlice secretBatch) secretSchema)
            \<lparr>Ticks := 1, Error := Some (EmptyColumns (VSlice secretBatch))\<rparr>)"
proof -
  have a: "Error (mkScope (VSlice []) userSchema) = None"
    "IndirectValue (mkScope (VSlice []) userSchema) = VSlice []"
    by (simp_all add: mkScope_def)
  have b: "Error (mkScope (VSlice secretBatch) secretSchema) = None"
    "IndirectValue (mkScope (VSlice secretBatch) secretSchema) = VSlice secretBatch"
    by (simp_all add: mkScope_def)
  have c: "secretBatch \<noteq> [] \<and> columnFields (StructFields (mkScope (VSlice secretBatch) secretSchema)) = []"
    by (simp add: demo_defs secretSchema_def secretBatch_def columnFields_def persistable_def)
  have d: "FiledsWithIndexForBatch (mkScope (VSlice secretBatch) secretSchema) 0 =
      Inr ([\<lparr>StructField = hd secretSchema, Field = FieldOf 0 [''Secret''], IsBlank = False\<rparr>],
           mkScope (VSlice secretBatch) secretSchema)"
    by (simp add: demo_defs secretSchema_def secretBatch_def FiledsWithIndexForBatch_def
          walkNames_Cons)
  show ?thesis
    using batchCreateCallback_preconditions [OF a, of demoEnv]
      batchCreateCallback_preconditions [OF b, of demoEnv] c d
    by (simp add: mkScope_def)
qed

section \<open>The insert option\<close>







section \<open>The statement the batch-insert stage builds\<close>

text \<open>
  The columns are chosen by the flags of the fields, the values of a row by the logical
  names collected in \<^verbatim>\<open>existColumnNames\<close>. Where the two agree, that is, where no field
  outside the Column Set carries the logical name of a field inside it, the statement has
  one value tuple per element of the collection, each tuple with as many placeholders as
  the Column Set has columns, and as many values are bound.
\<close>

lemma batchCreateCallback_tuples:
  assumes "Error scope = None" "IndirectValue scope = VSlice xs" "xs \<noteq> []"
    "homogeneous (StructFields scope) xs" "columnFields (StructFields scope) \<noteq> []"
    "columnNamesExclusive (StructFields scope)"
  shows "\<exists>placeholders scope'.
           batchCreateCallback env scope = Inr scope'
         \<and> SQL scope' = insertSQL (QuotedTableName env) (quotedColumns env (StructFields scope))
                           placeholders (optionText env scope)
         \<and> Executed scope' = Executed scope @ [(SQL scope', SQLVars scope')]
         \<and> length placeholders = length xs
         \<and> (\<forall>p\<in>set placeholders. length p = length (quotedColumns env (StructFields scope)))
         \<and> length (SQLVars scope') =
             length (SQLVars scope) + length xs * length (quotedColumns env (StructFields scope))"
proof -
  have b: "boundFields (StructFields scope) = columnFields (StructFields scope)"
    using assms(6) by (rule boundFields_exclusive)
  have q: "length (quotedColumns env (StructFields scope)) = length (columnFields (StructFields scope))"
    by (simp add: quotedColumns_def)
  from batch_count[OF assms(1-5), of env] obtain placeholders scope2 where
    r: "batchCreateCallback env scope =
       Inr (execStatement env (Raw scope2
            (insertSQL (QuotedTableName env) (quotedColumns env (StructFields scope)) placeholders
               (optionText env scope))))"
       "length placeholders = length xs"
       "\<forall>p\<in>set placeholders. length p = length (boundFields (StructFields scope))"
       "length (SQLVars scope2) =
         length (SQLVars scope) + length xs * length (boundFields (StructFields scope))"
       "Executed scope2 = Executed scope"
    by blast
  show ?thesis
    apply (rule exI[of _ placeholders])
    apply (rule exI[of _ "execStatement env (Raw scope2
            (insertSQL (QuotedTableName env) (quotedColumns env (StructFields scope)) placeholders
               (optionText env scope)))"])
    using r b q by (simp add: execStatement_fields Raw_def)
qed

lemma batchCreateCallback_tuples_example:
  "homogeneous userSchema userBatch \<and> columnNamesExclusive userSchema \<and>
   (\<exists>placeholders scope'.
       batchCreateCallback demoEnv (mkScope (VSlice userBatch) userSchema) = Inr scope'
     \<and> SQL scope' = insertSQL ''[users]'' [''[ID]'', ''[Role]'', ''[CreatedAt]'', ''[UpdatedAt]'']
                       placeholders []
     \<and> length placeholders = 3 \<and> length (SQLVars scope') = 12)"
proof -
  have h: "Error (mkScope (VSlice userBatch) userSchema) = None"
    "IndirectValue (mkScope (VSlice userBatch) userSchema) = VSlice userBatch"
    "userBatch \<noteq> []"
    "homogeneous (StructFields (mkScope (VSlice userBatch) userSchema)) userBatch"
    "columnFields (StructFields (mkScope (VSlice userBatch) userSchema)) \<noteq> []"
    "columnNamesExclusive (StructFields (mkScope (VSlice userBatch) userSchema))"
    by (simp_all add: demo_defs userSchema_def userBatch_def homogeneous_def isRecord_def
          columnFields_def persistable_def columnNamesExclusive_def inColumnSet_def)
  have e: "quotedColumns demoEnv userSchema = [''[ID]'', ''[Role]'', ''[CreatedAt]'', ''[UpdatedAt]'']"
    "optionText demoEnv (mkScope (VSlice userBatch) userSchema) = []"
    "length userBatch = 3"
    by (simp_all add: demo_defs userSchema_def userBatch_def quotedColumns_def columnFields_def
          persistable_def optionText_def)
  have f: "StructFields (mkScope (VSlice userBatch) userSchema) = userSchema"
    "SQLVars (mkScope (VSlice userBatch) userSchema) = []"
    "QuotedTableName demoEnv = ''[users]''"
    by (simp_all add: demo_defs)
  from batchCreateCallback_tuples [OF h, of demoEnv] obtain placeholders scope' where
    "batchCreateCallback demoEnv (mkScope (VSlice userBatch) userSchema) = Inr scope'"
    "SQL scope' = insertSQL ''[users]'' [''[ID]'', ''[Role]'', ''[CreatedAt]'', ''[UpdatedAt]'']
                       placeholders []"
    "length placeholders = 3" "length (SQLVars scope') = 12"
    using e f by auto
  moreover have "homogeneous userSchema userBatch" "columnNamesExclusive userSchema"
    using h(4,6) f(1) by simp_all
  ultimately show ?thesis by blast
qed

text \<open>
  C1. For every non-empty homogeneous collection whose first element yields at least one
  normal, non-ignored column, the statement is to contain one value tuple per element,
  each with as many placeholders as the Column Set has columns. The code breaks this
  where a field outside the Column Set shares its logical name with a column: the row
  loop binds a value for every field whose name is in \<^verbatim>\<open>existColumnNames\<close>. For a struct
  that shadows the column \<open>Note\<close> of an embedded struct with an ignored field \<open>Note\<close>, one
  element and one column give a tuple of two placeholders and two bound values.
\<close>

theorem shadowed_name_breaks_arity:
  "Error (mkScope (VSlice shadowBatch) shadowSchema) = None
   \<and> shadowBatch \<noteq> []
   \<and> homogeneous shadowSchema shadowBatch
   \<and> columnFields shadowSchema \<noteq> []
   \<and> length shadowBatch * length (quotedColumns demoEnv shadowSchema) = 1
   \<and> (\<exists>scope'. batchCreateCallback demoEnv (mkScope (VSlice shadowBatch) shadowSchema) = Inr scope'
         \<and> SQL scope' = ''INSERT INTO [users] ([Note]) VALUES (?,?)''
         \<and> length (SQLVars scope') = 2)"
  by (simp add: demo_defs shadowSchema_def shadowBatch_def run_defs homogeneous_def isRecord_def
        columnFields_def persistable_def quotedColumns_def)


text \<open>
  The Column Set is the list of the quoted column names of the normal, non-ignored fields
  of the schema, in schema order: it is derived from the descriptors of element 0 and
  does not depend on the state of any element. Where no field outside the Column Set
  carries the logical name of a field inside it, the values bound are, row after row in
  the order of the collection, one value per column in the order of the Column Set: the
  value the Value Resolver gives for that field of that element.
\<close>

lemma batchCreateCallback_rows_follow_columns:
  assumes "Error scope = None" "IndirectValue scope = VSlice xs" "xs \<noteq> []"
    "homogeneous (StructFields scope) xs" "columnFields (StructFields scope) \<noteq> []"
    "pathsIndependent (map Names (StructFields scope))"
    "columnNamesExclusive (StructFields scope)"
  shows "\<exists>placeholders scope'.
           batchCreateCallback env scope = Inr scope'
         \<and> SQL scope' = insertSQL (QuotedTableName env) (quotedColumns env (StructFields scope))
                           placeholders (optionText env scope)
         \<and> SQLVars scope' =
             SQLVars scope @ concat (map (\<lambda>entry. map (rowValue (Indirect entry))
                                       (columnFields (StructFields scope))) xs)"
proof -
  have b: "boundFields (StructFields scope) = columnFields (StructFields scope)"
    using assms(7) by (rule boundFields_exclusive)
  from batch_values[OF assms(1-6), of env] obtain placeholders xs' where
    r: "batchCreateCallback env scope =
       Inr (execStatement env (Raw
            (scope\<lparr>Ticks := Suc (Ticks scope), IndirectValue := VSlice xs',
               SQLVars := SQLVars scope @ concat (map (\<lambda>e. map (rowValue (Indirect e))
                             (boundFields (StructFields scope))) xs)\<rparr>)
            (insertSQL (QuotedTableName env) (quotedColumns env (StructFields scope)) placeholders
               (optionText env scope))))"
    by blast
  show ?thesis
    apply (rule exI[of _ placeholders])
    apply (rule exI[of _ "execStatement env (Raw
            (scope\<lparr>Ticks := Suc (Ticks scope), IndirectValue := VSlice xs',
               SQLVars := SQLVars scope @ concat (map (\<lambda>e. map (rowValue (Indirect e))
                             (boundFields (StructFields scope))) xs)\<rparr>)
            (insertSQL (QuotedTableName env) (quotedColumns env (StructFields scope)) placeholders
               (optionText env scope)))"])
    using r b by (simp add: execStatement_fields Raw_def)
qed

lemma batchCreateCallback_rows_follow_columns_example:
  "homogeneous ticketSchema ticketBatch \<and> pathsIndependent (map Names ticketSchema)
   \<and> columnNamesExclusive ticketSchema
   \<and> quotedColumns demoEnv ticketSchema = [''[Code]'', ''[Title]'']
   \<and> (\<exists>placeholders scope'.
         batchCreateCallback demoEnv (mkScope (VSlice ticketBatch) ticketSchema) = Inr scope'
       \<and> SQL scope' = insertSQL ''[users]'' [''[Code]'', ''[Title]''] placeholders []
       \<and> SQLVars scope' = [VStr ''T-9'', VStr ''first'', VNil, VStr ''second''])"
proof -
  have h: "Error (mkScope (VSlice ticketBatch) ticketSchema) = None"
    "IndirectValue (mkScope (VSlice ticketBatch) ticketSchema) = VSlice ticketBatch"
    "ticketBatch \<noteq> []"
    "homogeneous (StructFields (mkScope (VSlice ticketBatch) ticketSchema)) ticketBatch"
    "columnFields (StructFields (mkScope (VSlice ticketBatch) ticketSchema)) \<noteq> []"
    "pathsIndependent (map Names (StructFields (mkScope (VSlice ticketBatch) ticketSchema)))"
    "columnNamesExclusive (StructFields (mkScope (VSlice ticketBatch) ticketSchema))"
    by (simp_all add: demo_defs ticketSchema_def ticketBatch_def homogeneous_def isRecord_def
          columnFields_def persistable_def columnNamesExclusive_def inColumnSet_def)
  have f: "StructFields (mkScope (VSlice ticketBatch) ticketSchema) = ticketSchema"
    "SQLVars (mkScope (VSlice ticketBatch) ticketSchema) = []"
    "QuotedTableName demoEnv = ''[users]''"
    "optionText demoEnv (mkScope (VSlice ticketBatch) ticketSchema) = []"
    by (simp_all add: demo_defs optionText_def)
  have e: "quotedColumns demoEnv ticketSchema = [''[Code]'', ''[Title]'']"
    "concat (map (\<lambda>entry. map (rowValue (Indirect entry)) (columnFields ticketSchema)) ticketBatch)
       = [VStr ''T-9'', VStr ''first'', VNil, VStr ''second'']"
    by (simp_all add: demo_defs ticketSchema_def ticketBatch_def quotedColumns_def columnFields_def
          persistable_def rowValue_def)
  from batchCreateCallback_rows_follow_columns [OF h, of demoEnv] obtain placeholders scope' where
    "batchCreateCallback demoEnv (mkScope (VSlice ticketBatch) ticketSchema) = Inr scope'"
    "SQL scope' = insertSQL ''[users]'' [''[Code]'', ''[Title]''] placeholders []"
    "SQLVars scope' = [VStr ''T-9'', VStr ''first'', VNil, VStr ''second'']"
    using e f by auto
  moreover have "homogeneous ticketSchema ticketBatch" "pathsIndependent (map Names ticketSchema)"
    "columnNamesExclusive ticketSchema"
    using h(4,6,7) f(1) by simp_all
  ultimately show ?thesis using e(1) by blast
qed

text \<open>
  C2. The Column Set is derived once, from the descriptors of element 0, and every row is
  to contribute exactly one bound value per column, in the order of the columns. The code
  breaks this where a field outside the Column Set shares its logical name with a column:
  for a struct with a struct-valued field \<open>Tag\<close> that embeds a struct with the column
  \<open>Tag\<close>, each of the two rows binds two values, the struct first, for the one column.
\<close>

theorem shared_name_binds_two_values_per_column:
  "Error (mkScope (VSlice tagBatch) tagSchema) = None
   \<and> tagBatch \<noteq> []
   \<and> homogeneous tagSchema tagBatch
   \<and> pathsIndependent (map Names tagSchema)
   \<and> quotedColumns demoEnv tagSchema = [''[Tag]'']
   \<and> concat (map (\<lambda>entry. map (rowValue (Indirect entry)) (columnFields tagSchema)) tagBatch)
       = [VStr ''m0'', VStr ''m1'']
   \<and> (\<exists>scope'. batchCreateCallback demoEnv (mkScope (VSlice tagBatch) tagSchema) = Inr scope'
         \<and> SQL scope' = ''INSERT INTO [users] ([Tag]) VALUES (?,?),(?,?)''
         \<and> SQLVars scope' = [VStruct [(''ID'', VInt 1)], VStr ''m0'',
                              VStruct [(''ID'', VInt 2)], VStr ''m1''])"
  by (simp add: demo_defs tagSchema_def tagBatch_def run_defs homogeneous_def isRecord_def
        columnFields_def persistable_def quotedColumns_def rowValue_def)

section \<open>The value bound for a field, and the write-back\<close>

lemma batch_row_parameter:
  assumes "Error scope = None" "IndirectValue scope = VSlice xs"
    "homogeneous (StructFields scope) xs" "columnFields (StructFields scope) \<noteq> []"
    "pathsIndependent (map Names (StructFields scope))"
    "i < length xs" "j < length (boundFields (StructFields scope))"
  shows "\<exists>scope' xs'.
           batchCreateCallback env scope = Inr scope'
         \<and> IndirectValue scope' = VSlice xs' \<and> length xs' = length xs
         \<and> SQLVars scope' ! (length (SQLVars scope) + i * length (boundFields (StructFields scope)) + j)
             = rowValue (Indirect (xs ! i)) (boundFields (StructFields scope) ! j)
         \<and> peek (Indirect (xs' ! i)) (Names (boundFields (StructFields scope) ! j))
             = writtenBack (inColumnSet (StructFields scope)) (Indirect (xs ! i))
                 (boundFields (StructFields scope) ! j)"
proof -
  let ?sfs = "StructFields scope"
  let ?F = "boundFields ?sfs"
  let ?rows = "map (\<lambda>e. map (rowValue (Indirect e)) ?F) xs"
  have ne: "xs \<noteq> []" using assms(6) by auto
  from batch_values[OF assms(1,2) ne assms(3,4,5), of env] obtain placeholders xs' where
    r: "batchCreateCallback env scope =
       Inr (execStatement env (Raw
            (scope\<lparr>Ticks := Suc (Ticks scope), IndirectValue := VSlice xs',
               SQLVars := SQLVars scope @ concat ?rows\<rparr>)
            (insertSQL (QuotedTableName env) (quotedColumns env ?sfs) placeholders
               (optionText env scope))))"
       "length xs' = length xs"
       "\<forall>i<length xs. \<forall>sf\<in>set ?sfs.
           peek (Indirect (xs' ! i)) (Names sf) = writtenBack (inColumnSet ?sfs) (Indirect (xs ! i)) sf"
    by blast
  let ?scope' = "execStatement env (Raw
            (scope\<lparr>Ticks := Suc (Ticks scope), IndirectValue := VSlice xs',
               SQLVars := SQLVars scope @ concat ?rows\<rparr>)
            (insertSQL (QuotedTableName env) (quotedColumns env ?sfs) placeholders
               (optionText env scope)))"
  have v: "SQLVars ?scope' = SQLVars scope @ concat ?rows"
    and t: "IndirectValue ?scope' = VSlice xs'"
    by (simp_all add: execStatement_fields Raw_def)
  have u: "\<forall>row\<in>set ?rows. length row = length ?F" by simp
  have "concat ?rows ! (i * length ?F + j) = ?rows ! i ! j"
    using assms(6,7) by (intro concat_nth_uniform[OF u]) simp_all
  also have "\<dots> = rowValue (Indirect (xs ! i)) (?F ! j)" using assms(6,7) by simp
  finally have c: "concat ?rows ! (i * length ?F + j) = rowValue (Indirect (xs ! i)) (?F ! j)" .
  have p: "SQLVars ?scope' ! (length (SQLVars scope) + i * length ?F + j)
      = rowValue (Indirect (xs ! i)) (?F ! j)"
    unfolding v using c by (simp add: nth_append add.assoc)
  have "?F ! j \<in> set ?F" using assms(7) by simp
  then have m: "?F ! j \<in> set ?sfs" by (simp add: boundFields_def)
  have w: "peek (Indirect (xs' ! i)) (Names (?F ! j))
      = writtenBack (inColumnSet ?sfs) (Indirect (xs ! i)) (?F ! j)"
    using r(3) assms(6) m by blast
  from r(1,2) t p w show ?thesis by blast
qed

text \<open>
  C3. In a homogeneous collection over a schema with independent name paths, for every
  field a row binds a value for (the fields of the Column Set among them) that is blank,
  not the primary key, and has a default: the parameter bound for that row and that
  position is the configured default, and after the call the field of the element in
  memory holds the same default.
\<close>

theorem default_bound_and_written_back:
  assumes "Error scope = None" "IndirectValue scope = VSlice xs"
    "homogeneous (StructFields scope) xs" "columnFields (StructFields scope) \<noteq> []"
    "pathsIndependent (map Names (StructFields scope))"
    "i < length xs" "j < length (boundFields (StructFields scope))"
    "isBlank (lookup (Indirect (xs ! i)) (Names (boundFields (StructFields scope) ! j)))"
    "\<not> IsPrimaryKey (boundFields (StructFields scope) ! j)"
    "HasDefaultValue (boundFields (StructFields scope) ! j)"
  shows "\<exists>scope' xs'.
           batchCreateCallback env scope = Inr scope'
         \<and> IndirectValue scope' = VSlice xs' \<and> length xs' = length xs
         \<and> SQLVars scope' ! (length (SQLVars scope) + i * length (boundFields (StructFields scope)) + j)
             = VStr (tagDefault (boundFields (StructFields scope) ! j))
         \<and> peek (Indirect (xs' ! i)) (Names (boundFields (StructFields scope) ! j))
             = VStr (tagDefault (boundFields (StructFields scope) ! j))"
proof -
  let ?sf = "boundFields (StructFields scope) ! j"
  have "?sf \<in> set (boundFields (StructFields scope))" using assms(7) by simp
  then have c: "inColumnSet (StructFields scope) (Name ?sf)" by (simp add: boundFields_def)
  have 1: "rowValue (Indirect (xs ! i)) ?sf = VStr (tagDefault ?sf)"
    using assms(8,9,10) by (simp add: rowValue_def)
  have 2: "writtenBack (inColumnSet (StructFields scope)) (Indirect (xs ! i)) ?sf = VStr (tagDefault ?sf)"
    using assms(8,9,10) c by (simp add: writtenBack_def)
  from batch_row_parameter[OF assms(1-7), of env] show ?thesis unfolding 1 2 .
qed

theorem default_bound_and_written_back_witness:
  "homogeneous userSchema userBatch \<and> pathsIndependent (map Names userSchema)
   \<and> Name (boundFields userSchema ! 1) = ''Role''
   \<and> peek (Indirect (userBatch ! 0)) [''Role''] = VStr []
   \<and> (\<exists>scope' xs'.
         batchCreateCallback demoEnv (mkScope (VSlice userBatch) userSchema) = Inr scope'
       \<and> IndirectValue scope' = VSlice xs'
       \<and> SQLVars scope' ! 1 = VStr ''guest''
       \<and> peek (Indirect (xs' ! 0)) [''Role''] = VStr ''guest'')"
proof -
  have f: "StructFields (mkScope (VSlice userBatch) userSchema) = userSchema"
    "SQLVars (mkScope (VSlice userBatch) userSchema) = []"
    by (simp_all add: demo_defs)
  have b: "boundFields userSchema = userSchema"
    by (simp add: demo_defs userSchema_def boundFields_def inColumnSet_def columnFields_def
          persistable_def)
  have h: "Error (mkScope (VSlice userBatch) userSchema) = None"
    "IndirectValue (mkScope (VSlice userBatch) userSchema) = VSlice userBatch"
    "homogeneous (StructFields (mkScope (VSlice userBatch) userSchema)) userBatch"
    "columnFields (StructFields (mkScope (VSlice userBatch) userSchema)) \<noteq> []"
    "pathsIndependent (map Names (StructFields (mkScope (VSlice userBatch) userSchema)))"
    "0 < length userBatch"
    "1 < length (boundFields (StructFields (mkScope (VSlice userBatch) userSchema)))"
    "isBlank (lookup (Indirect (userBatch ! 0))
       (Names (boundFields (StructFields (mkScope (VSlice userBatch) userSchema)) ! 1)))"
    "\<not> IsPrimaryKey (boundFields (StructFields (mkScope (VSlice userBatch) userSchema)) ! 1)"
    "HasDefaultValue (boundFields (StructFields (mkScope (VSlice userBatch) userSchema)) ! 1)"
    unfolding f b
    by (simp_all add: demo_defs userSchema_def userBatch_def homogeneous_def isRecord_def
          columnFields_def persistable_def)
  have e: "Names (userSchema ! 1) = [''Role'']" "tagDefault (userSchema ! 1) = ''guest''"
    "Name (userSchema ! 1) = ''Role''" "peek (Indirect (userBatch ! 0)) [''Role''] = VStr []"
    by (simp_all add: demo_defs userSchema_def userBatch_def tagDefault_def)
  from default_bound_and_written_back [OF h, of demoEnv] obtain scope' xs' where
    "batchCreateCallback demoEnv (mkScope (VSlice userBatch) userSchema) = Inr scope'"
    "IndirectValue scope' = VSlice xs'"
    "SQLVars scope' ! 1 = VStr ''guest''"
    "peek (Indirect (xs' ! 0)) [''Role''] = VStr ''guest''"
    unfolding f b e by auto
  moreover have "homogeneous userSchema userBatch" "pathsIndependent (map Names userSchema)"
    using h(3,5) f(1) by simp_all
  ultimately show ?thesis using b e(3,4) by auto
qed

text \<open>
  C4. In a homogeneous collection over a schema with independent name paths, for every
  field a row binds a value for that is blank and is the primary key, the parameter bound
  for that row and that position is nil, whatever the zero value of the field is and
  whether or not the field has a configured default.
\<close>

theorem blank_primary_key_bound_nil:
  assumes "Error scope = None" "IndirectValue scope = VSlice xs"
    "homogeneous (StructFields scope) xs" "columnFields (StructFields scope) \<noteq> []"
    "pathsIndependent (map Names (StructFields scope))"
    "i < length xs" "j < length (boundFields (StructFields scope))"
    "isBlank (lookup (Indirect (xs ! i)) (Names (boundFields (StructFields scope) ! j)))"
    "IsPrimaryKey (boundFields (StructFields scope) ! j)"
  shows "\<exists>scope'.
           batchCreateCallback env scope = Inr scope'
         \<and> SQLVars scope' ! (length (SQLVars scope) + i * length (boundFields (StructFields scope)) + j)
             = VNil"
proof -
  let ?sf = "boundFields (StructFields scope) ! j"
  have 1: "rowValue (Indirect (xs ! i)) ?sf = VNil"
    using assms(8,9) by (simp add: rowValue_def)
  from batch_row_parameter[OF assms(1-7), of env] show ?thesis unfolding 1 by blast
qed

theorem blank_primary_key_bound_nil_witness:
  "homogeneous ticketSchema ticketBatch \<and> pathsIndependent (map Names ticketSchema)
   \<and> IsPrimaryKey (boundFields ticketSchema ! 0) \<and> HasDefaultValue (boundFields ticketSchema ! 0)
   \<and> tagDefault (boundFields ticketSchema ! 0) = ''T-0''
   \<and> peek (Indirect (ticketBatch ! 1)) [''Code''] = VStr []
   \<and> (\<exists>scope'.
         batchCreateCallback demoEnv (mkScope (VSlice ticketBatch) ticketSchema) = Inr scope'
       \<and> SQLVars scope' ! 2 = VNil)"
proof -
  have f: "StructFields (mkScope (VSlice ticketBatch) ticketSchema) = ticketSchema"
    "SQLVars (mkScope (VSlice ticketBatch) ticketSchema) = []"
    by (simp_all add: demo_defs)
  have b: "boundFields ticketSchema = ticketSchema"
    by (simp add: demo_defs ticketSchema_def boundFields_def inColumnSet_def columnFields_def
          persistable_def)
  have h: "Error (mkScope (VSlice ticketBatch) ticketSchema) = None"
    "IndirectValue (mkScope (VSlice ticketBatch) ticketSchema) = VSlice ticketBatch"
    "homogeneous (StructFields (mkScope (VSlice ticketBatch) ticketSchema)) ticketBatch"
    "columnFields (StructFields (mkScope (VSlice ticketBatch) ticketSchema)) \<noteq> []"
    "pathsIndependent (map Names (StructFields (mkScope (VSlice ticketBatch) ticketSchema)))"
    "1 < length ticketBatch"
    "0 < length (boundFields (StructFields (mkScope (VSlice ticketBatch) ticketSchema)))"
    "isBlank (lookup (Indirect (ticketBatch ! 1))
       (Names (boundFields (StructFields (mkScope (VSlice ticketBatch) ticketSchema)) ! 0)))"
    "IsPrimaryKey (boundFields (StructFields (mkScope (VSlice ticketBatch) ticketSchema)) ! 0)"
    unfolding f b
    by (simp_all add: demo_defs ticketSchema_def ticketBatch_def homogeneous_def isRecord_def
          columnFields_def persistable_def)
  have e: "IsPrimaryKey (ticketSchema ! 0)" "HasDefaultValue (ticketSchema ! 0)"
    "tagDefault (ticketSchema ! 0) = ''T-0''" "peek (Indirect (ticketBatch ! 1)) [''Code''] = VStr []"
    "length ticketSchema = 2"
    by (simp_all add: demo_defs ticketSchema_def ticketBatch_def tagDefault_def)
  from blank_primary_key_bound_nil [OF h, of demoEnv] obtain scope' where
    "batchCreateCallback demoEnv (mkScope (VSlice ticketBatch) ticketSchema) = Inr scope'"
    "SQLVars scope' ! 2 = VNil"
    unfolding f b e by (auto simp: numeral_2_eq_2)
  moreover have "homogeneous ticketSchema ticketBatch" "pathsIndependent (map Names ticketSchema)"
    using h(3,5) f(1) by simp_all
  ultimately show ?thesis using b e by auto
qed


section \<open>The timestamp stage: results\<close>

text \<open>
  C5. The timestamp stage reads the clock once per invocation. In a homogeneous
  collection over a schema with independent name paths, after the stage every field of
  every element that is named "CreatedAt" or "UpdatedAt" and was blank holds that one
  time, and every other field of the schema (a non-blank timestamp field among them)
  holds what it held before; so all the elements stamped in one batch carry the same
  timestamp. Nothing else of the context changes.
\<close>

theorem updateTimeStamp_stamps_blank_fields:
  assumes "Error scope = None" "IndirectValue scope = VSlice xs"
    "homogeneous (StructFields scope) xs" "pathsIndependent (map Names (StructFields scope))"
  shows "\<exists>xs'. updateTimeStampForBatchCreateCallback env scope =
            Inr (scope\<lparr>Ticks := Suc (Ticks scope), IndirectValue := VSlice xs'\<rparr>) \<and>
          length xs' = length xs \<and>
          (\<forall>i<length xs. \<forall>sf\<in>set (StructFields scope).
             peek (Indirect (xs' ! i)) (Names sf)
               = stamped (VTime (NowFunc env (Ticks scope))) (Indirect (xs ! i)) sf)"
proof -
  let ?s0 = "scope\<lparr>Ticks := Suc (Ticks scope)\<rparr>"
  have rec: "\<forall>j. 0 \<le> j \<and> j < length xs \<longrightarrow> isRecord (StructFields ?s0) (xs ! j)"
    using assms(3) by (simp add: homogeneous_def list_all_length)
  have 1: "IndirectValue ?s0 = VSlice xs" using assms(2) by simp
  have 5: "pathsIndependent (map Names (StructFields ?s0))" using assms(4) by simp
  from stampElements_all[OF 1 refl _ rec 5, of "NowFunc env (Ticks scope)"] obtain ys' where
    r: "stampElements (VTime (NowFunc env (Ticks scope))) 0 (length xs) ?s0
          = Inr (?s0\<lparr>IndirectValue := VSlice ys'\<rparr>)"
       "length ys' = length xs"
       "\<forall>j. 0 \<le> j \<and> j < length xs \<longrightarrow>
              (\<forall>sf\<in>set (StructFields ?s0).
                 peek (Indirect (ys' ! j)) (Names sf)
                   = stamped (VTime (NowFunc env (Ticks scope))) (Indirect (xs ! j)) sf)"
    by auto
  have "updateTimeStampForBatchCreateCallback env scope
          = Inr (scope\<lparr>Ticks := Suc (Ticks scope), IndirectValue := VSlice ys'\<rparr>)"
    using assms(1,2) r(1)
    by (simp add: updateTimeStampForBatchCreateCallback_def HasError_def Let_def)
  with r(2,3) show ?thesis by auto
qed

theorem updateTimeStamp_stamps_blank_fields_witness:
  "homogeneous userSchema userBatch \<and> pathsIndependent (map Names userSchema)
   \<and> lookup (Indirect (userBatch ! 0)) [''Base'', ''CreatedAt''] = VTime 0
   \<and> lookup (Indirect (userBatch ! 1)) [''Base'', ''CreatedAt''] = VTime 0
   \<and> lookup (Indirect (userBatch ! 2)) [''Base'', ''CreatedAt''] = VTime 5
   \<and> lookup (Indirect (userBatch ! 2)) [''Role''] = VStr []
   \<and> (\<exists>xs'. updateTimeStampForBatchCreateCallback demoEnv (mkScope (VSlice userBatch) userSchema) =
            Inr ((mkScope (VSlice userBatch) userSchema)\<lparr>Ticks := 1, IndirectValue := VSlice xs'\<rparr>)
       \<and> peek (Indirect (xs' ! 0)) [''Base'', ''CreatedAt''] = VTime 100
       \<and> peek (Indirect (xs' ! 1)) [''Base'', ''CreatedAt''] = VTime 100
       \<and> peek (Indirect (xs' ! 2)) [''Base'', ''CreatedAt''] = VTime 5
       \<and> peek (Indirect (xs' ! 2)) [''Base'', ''UpdatedAt''] = VTime 100
       \<and> peek (Indirect (xs' ! 2)) [''Role''] = VStr [])"
proof -
  let ?scope = "mkScope (VSlice userBatch) userSchema"
  have f: "StructFields ?scope = userSchema" "Ticks ?scope = 0" "NowFunc demoEnv 0 = 100"
    by (simp_all add: demo_defs)
  have h: "Error ?scope = None" "IndirectValue ?scope = VSlice userBatch"
    "homogeneous (StructFields ?scope) userBatch"
    "pathsIndependent (map Names (StructFields ?scope))"
    unfolding f
    by (simp_all add: demo_defs userSchema_def userBatch_def homogeneous_def isRecord_def)
  have l: "length userBatch = 3" by (simp add: userBatch_def)
  have m: "userSchema ! 1 \<in> set userSchema" "userSchema ! 2 \<in> set userSchema"
    "userSchema ! 3 \<in> set userSchema"
    by (simp_all add: userSchema_def)
  have n: "Names (userSchema ! 1) = [''Role'']" "Names (userSchema ! 2) = [''Base'', ''CreatedAt'']"
    "Names (userSchema ! 3) = [''Base'', ''UpdatedAt'']"
    by (simp_all add: userSchema_def mkStructField_def)
  have e: "stamped (VTime 100) (Indirect (userBatch ! 0)) (userSchema ! 2) = VTime 100"
    "stamped (VTime 100) (Indirect (userBatch ! 1)) (userSchema ! 2) = VTime 100"
    "stamped (VTime 100) (Indirect (userBatch ! 2)) (userSchema ! 2) = VTime 5"
    "stamped (VTime 100) (Indirect (userBatch ! 2)) (userSchema ! 3) = VTime 100"
    "stamped (VTime 100) (Indirect (userBatch ! 2)) (userSchema ! 1) = VStr []"
    by (simp_all add: userSchema_def userBatch_def mkStructField_def stamped_def
          namedTimestamp_def)
  have o: "lookup (Indirect (userBatch ! 0)) [''Base'', ''CreatedAt''] = VTime 0"
    "lookup (Indirect (userBatch ! 1)) [''Base'', ''CreatedAt''] = VTime 0"
    "lookup (Indirect (userBatch ! 2)) [''Base'', ''CreatedAt''] = VTime 5"
    "lookup (Indirect (userBatch ! 2)) [''Role''] = VStr []"
    by (simp_all add: userBatch_def)
  from updateTimeStamp_stamps_blank_fields [OF h, of demoEnv] obtain xs' where
    r: "updateTimeStampForBatchCreateCallback demoEnv ?scope =
            Inr (?scope\<lparr>Ticks := 1, IndirectValue := VSlice xs'\<rparr>)"
    and v: "\<forall>i<3. \<forall>sf\<in>set userSchema.
             peek (Indirect (xs' ! i)) (Names sf) = stamped (VTime 100) (Indirect (userBatch ! i)) sf"
    unfolding f l by auto
  have "peek (Indirect (xs' ! 0)) [''Base'', ''CreatedAt''] = VTime 100"
    "peek (Indirect (xs' ! 1)) [''Base'', ''CreatedAt''] = VTime 100"
    "peek (Indirect (xs' ! 2)) [''Base'', ''CreatedAt''] = VTime 5"
    "peek (Indirect (xs' ! 2)) [''Base'', ''UpdatedAt''] = VTime 100"
    "peek (Indirect (xs' ! 2)) [''Role''] = VStr []"
    using v[rule_format, of 0, OF _ m(2)] v[rule_format, of 1, OF _ m(2)]
      v[rule_format, of 2, OF _ m(2)] v[rule_format, of 2, OF _ m(3)]
      v[rule_format, of 2, OF _ m(1)]
    unfolding n e by simp_all
  moreover have "homogeneous userSchema userBatch" "pathsIndependent (map Names userSchema)"
    using h(3,4) f(1) by simp_all
  ultimately show ?thesis using r o by blast
qed

end
